theory Spec2Isabelle
  imports Main
begin

section \<open>Strings, file names and paths\<close>

text \<open>
  A Python \<^verbatim>\<open>str\<close> is a sequence of Unicode code points, so it is modelled as a list of
  natural numbers (not as a HOL \<open>string\<close>, whose characters are bytes). \<open>py\<close> turns an
  ASCII literal of the source into such a list.
\<close>

type_synonym pystr = "nat list"

definition py :: "string \<Rightarrow> pystr" where
  "py s = map of_char s"

text \<open>\<^verbatim>\<open>s.startswith(p)\<close>\<close>

definition startswith :: "pystr \<Rightarrow> pystr \<Rightarrow> bool" where
  "startswith s p = (take (length p) s = p)"

text \<open>
  The class \<^verbatim>\<open>\w\<close> of a \<^verbatim>\<open>str\<close> pattern: the underscore and every code point that is
  alphanumeric in the Unicode database. On ASCII these are the letters and the digits;
  above ASCII the database is a table of the interpreter, taken as the parameter \<open>uni\<close>.
\<close>

definition ascii_alnum :: "nat \<Rightarrow> bool" where
  "ascii_alnum c = ((48 \<le> c \<and> c \<le> 57) \<or> (65 \<le> c \<and> c \<le> 90) \<or> (97 \<le> c \<and> c \<le> 122))"

definition word_char :: "(nat \<Rightarrow> bool) \<Rightarrow> nat \<Rightarrow> bool" where
  "word_char uni c = (c = 95 \<or> (if c < 128 then ascii_alnum c else uni c))"

text \<open>
  The characters that the class \<^verbatim>\<open>[^\w\-_\. ]\<close> does not match: word characters,
  hyphen (45), underscore (95), period (46) and space (32).
\<close>

definition allowed :: "(nat \<Rightarrow> bool) \<Rightarrow> nat \<Rightarrow> bool" where
  "allowed uni c = (word_char uni c \<or> c = 45 \<or> c = 95 \<or> c = 46 \<or> c = 32)"

text \<open>
  \<^verbatim>\<open>re.sub(r"[^\w\-_\. ]", "_", name)\<close>: every match is one character (a newline
  included, the class being negated), and each is replaced by an underscore.
\<close>

definition sanitize_filename :: "(nat \<Rightarrow> bool) \<Rightarrow> pystr \<Rightarrow> pystr" where
  "sanitize_filename uni name = map (\<lambda>c. if allowed uni c then c else 95) name"

text \<open>
  \<^verbatim>\<open>os.path.join(a, b)\<close> with two arguments, as \<^verbatim>\<open>posixpath\<close> computes it: an absolute
  \<open>b\<close> replaces \<open>a\<close>; a separator is inserted unless \<open>a\<close> is empty or ends with one.
\<close>

definition path_join :: "pystr \<Rightarrow> pystr \<Rightarrow> pystr" where
  "path_join a b =
     (if startswith b [47] then b
      else if a = [] \<or> last a = 47 then a @ b
      else a @ [47] @ b)"

section \<open>Exceptions and lazily fetched listings\<close>

text \<open>
  The exception classes that the handlers of the script tell apart, and \<open>Forbidden\<close>,
  which the API client raises when access to a resource is denied (status 403;
  \<open>Unauthorized\<close> is status 401) and which no handler names. Every other subclass of
  \<^verbatim>\<open>Exception\<close> (those of the HTTP library, \<^verbatim>\<open>OSError\<close>, \<^verbatim>\<open>ValueError\<close>, ...) is
  \<open>OtherException\<close> with its message.
\<close>

datatype exn =
    Unauthorized pystr
  | Forbidden pystr
  | ResourceDoesNotExist pystr
  | StopIteration
  | OtherException pystr

text \<open>
  What iterating over a listing of the API client yields: pages are fetched while the
  loop runs, so the iteration can raise after any number of elements. A Python list is
  a listing without \<open>PRaise\<close>.
\<close>

datatype 'a plist = PNil | PCons 'a "'a plist" | PRaise exn

primrec of_list :: "'a list \<Rightarrow> 'a plist" where
  "of_list [] = PNil"
| "of_list (x # xs) = PCons x (of_list xs)"

section \<open>The objects of the API and of the HTTP library\<close>

text \<open>A file descriptor; \<^verbatim>\<open>not file.url\<close> holds for \<^verbatim>\<open>None\<close> and for the empty string.\<close>

record canvas_file =
  file_url :: "pystr option"
  display_name :: pystr

definition has_url :: "canvas_file \<Rightarrow> bool" where
  "has_url f = (case file_url f of None \<Rightarrow> False | Some s \<Rightarrow> s \<noteq> [])"

text \<open>A folder with the listings its two methods return.\<close>

datatype folder =
  Folder (folder_id: nat) (folder_name: pystr) (full_name: pystr)
         (get_files: "canvas_file plist") (get_folders: folders)
and folders = FNil | FCons folder folders | FRaise exn

record module_item =
  item_id :: nat
  item_type :: pystr
  content_id :: nat

record canvas_module =
  module_id :: nat
  name_of_module :: pystr
  get_module_items :: "module_item plist"

record course =
  course_name :: pystr
  course_folders :: folders
  get_modules :: "canvas_module plist"

text \<open>
  A streamed response: its status code, the text of the error that the library builds
  from the status line, and the chunks that \<^verbatim>\<open>iter_content\<close> yields (bytes, as HOL
  characters).
\<close>

record response =
  status_code :: nat
  error_text :: pystr
  iter_content :: "string plist"

text \<open>
  \<^verbatim>\<open>response.raise_for_status()\<close> of the HTTP library: it raises for the client errors
  (400 to 499) and the server errors (500 to 599), and for no other status.
\<close>

definition raise_for_status :: "response \<Rightarrow> pystr option" where
  "raise_for_status resp =
     (if 400 \<le> status_code resp \<and> status_code resp < 600 then Some (error_text resp) else None)"

text \<open>
  The world outside the script, answering its calls: the Unicode table, line 62 as a
  whole (\<^verbatim>\<open>int(requests.head(url).headers.get("content-length", 0))\<close>, which raises
  when the request fails or the header is not a number), the GET request, and the two
  calls on the API client. The HTTP library raises none of the API client's exceptions.
\<close>

record env =
  unicode_alnum :: "nat \<Rightarrow> bool"
  head_content_length :: "pystr \<Rightarrow> pystr + int"
  http_get :: "pystr \<Rightarrow> pystr + response"
  get_course :: "nat \<Rightarrow> exn + course"
  get_file :: "nat \<Rightarrow> exn + canvas_file"

section \<open>Effects: the trace and the local file system\<close>

text \<open>One constructor per \<^verbatim>\<open>print\<close> of the script (colours left out).\<close>

datatype message =
    InvalidURL pystr
  | Downloaded pystr
  | DownloadFailed pystr exn
  | SkippingFileNoURL canvas_file
  | UnauthorizedFolder nat exn
  | ProcessingCourse pystr
  | SkippingCourse pystr
  | UnauthorizedCourseFiles nat exn
  | ErrorCourseFiles nat exn
  | NoURLModuleItem nat nat
  | FileNotFoundModuleItem nat nat
  | UnauthorizedModuleItems nat nat exn
  | ErrorModuleItems nat nat exn
  | UnauthorizedModules nat exn
  | ErrorModules nat exn
  | UnauthorizedCourse nat exn
  | CourseDoesNotExist nat exn
  | ErrorCourse nat exn

datatype api_call =
    GetCourse nat
  | GetFolders nat
  | GetFiles nat
  | GetSubfolders nat
  | GetModules nat
  | GetModuleItems nat
  | GetFile nat

text \<open>
  Everything the script does to the outside, in order. \<open>Submit url name dir\<close> is
  \<^verbatim>\<open>executor.submit(download_file, url, name, dir, pbar)\<close>. Progress bars only draw on
  the terminal and are left out.
\<close>

datatype event =
    Print message
  | ApiCall api_call
  | HttpHead pystr
  | HttpGet pystr
  | MakeDirs pystr
  | OpenWrite pystr
  | Submit pystr pystr pystr

text \<open>
  The state: the directories and the regular files of the local file system, by path,
  and the trace. Paths are compared as strings (no \<^verbatim>\<open>..\<close>, no links); a call on the
  file system fails only where a directory and a regular file clash or a parent
  directory is missing.
\<close>

record world =
  dirs :: "pystr set"
  files :: "pystr \<Rightarrow> string option"
  trace :: "event list"

type_synonym 'a result = "(exn + 'a) \<times> world"

definition emit :: "event \<Rightarrow> world \<Rightarrow> world" where
  "emit e w = w\<lparr>trace := trace w @ [e]\<rparr>"

text \<open>\<^verbatim>\<open>os.path.exists(p)\<close>\<close>

definition path_exists :: "world \<Rightarrow> pystr \<Rightarrow> bool" where
  "path_exists w p = (p \<in> dirs w \<or> files w p \<noteq> None)"

text \<open>The proper prefixes of a path that end before a separator.\<close>

definition ancestors :: "pystr \<Rightarrow> pystr list" where
  "ancestors p = map (\<lambda>i. take i p) (filter (\<lambda>i. p ! i = 47) [1..<length p])"

text \<open>
  \<^verbatim>\<open>os.makedirs(p, exist_ok=True)\<close>: the path and its ancestors become directories;
  the call raises when one of them is a regular file.
\<close>

definition makedirs :: "pystr \<Rightarrow> world \<Rightarrow> unit result" where
  "makedirs p w =
     (let w1 = emit (MakeDirs p) w in
      if list_ex (\<lambda>q. files w q \<noteq> None) (p # ancestors p)
      then (Inl (OtherException (py ''OSError'')), w1)
      else (Inr (), w1\<lparr>dirs := dirs w1 \<union> set (p # ancestors p)\<rparr>))"

text \<open>
  \<^verbatim>\<open>open(p, "wb")\<close>: the file is created or truncated; the call raises when the path
  is a directory or when its parent directory does not exist.
\<close>

definition open_wb :: "pystr \<Rightarrow> world \<Rightarrow> unit result" where
  "open_wb p w =
     (let w1 = emit (OpenWrite p) w in
      if p \<in> dirs w then (Inl (OtherException (py ''IsADirectoryError'')), w1)
      else if ancestors p \<noteq> [] \<and> last (ancestors p) \<notin> dirs w
      then (Inl (OtherException (py ''FileNotFoundError'')), w1)
      else (Inr (), w1\<lparr>files := (files w1)(p \<mapsto> [])\<rparr>))"

text \<open>\<^verbatim>\<open>f.write(chunk)\<close> on the file opened at \<open>p\<close>\<close>

definition write_chunk :: "pystr \<Rightarrow> string \<Rightarrow> world \<Rightarrow> world" where
  "write_chunk p c w =
     w\<lparr>files := (files w)(p \<mapsto> (case files w p of None \<Rightarrow> c | Some old \<Rightarrow> old @ c))\<rparr>"

section \<open>The downloader\<close>

text \<open>
  The loop over \<^verbatim>\<open>response.iter_content(chunk_size=8192)\<close> (lines 44 to 47): empty
  chunks are skipped, and what was written stays when the stream raises.
\<close>

fun write_chunks :: "pystr \<Rightarrow> string plist \<Rightarrow> world \<Rightarrow> unit result" where
  "write_chunks p PNil w = (Inr (), w)"
| "write_chunks p (PRaise e) w = (Inl e, w)"
| "write_chunks p (PCons c cs) w =
     write_chunks p cs (if c \<noteq> [] then write_chunk p c w else w)"

text \<open>The body of the \<^verbatim>\<open>try\<close> of \<^verbatim>\<open>download_file\<close> (lines 41 to 49).\<close>

definition download_try :: "env \<Rightarrow> pystr \<Rightarrow> pystr \<Rightarrow> world \<Rightarrow> unit result" where
  "download_try env url dest_path w =
     (let w1 = emit (HttpGet url) w in
      case http_get env url of
        Inl m \<Rightarrow> (Inl (OtherException m), w1)
      | Inr resp \<Rightarrow>
          (case raise_for_status resp of
             Some m \<Rightarrow> (Inl (OtherException m), w1)
           | None \<Rightarrow>
               (case open_wb dest_path w1 of
                  (Inl e, w2) \<Rightarrow> (Inl e, w2)
                | (Inr u, w2) \<Rightarrow>
                    (case write_chunks dest_path (iter_content resp) w2 of
                       (Inl e, w3) \<Rightarrow> (Inl e, w3)
                     | (Inr u', w3) \<Rightarrow> (Inr (), emit (Print (Downloaded dest_path)) w3)))))"

text \<open>\<^verbatim>\<open>download_file(file_url, file_name, folder_dir, pbar)\<close>, lines 33 to 52.\<close>

definition download_file :: "env \<Rightarrow> pystr \<Rightarrow> pystr \<Rightarrow> pystr \<Rightarrow> world \<Rightarrow> unit result" where
  "download_file env url name folder_dir w =
     (if \<not> startswith url (py ''http'') then (Inr (), emit (Print (InvalidURL url)) w)
      else
        let dest_path = path_join folder_dir (sanitize_filename (unicode_alnum env) name) in
        case download_try env url dest_path w of
          (Inl e, w') \<Rightarrow> (Inr (), emit (Print (DownloadFailed url e)) w')
        | (Inr u, w') \<Rightarrow> (Inr (), w'))"

text \<open>
  \<^verbatim>\<open>process_files(files, folder_dir)\<close>, lines 55 to 77. The first loop (lines 58 to
  74) probes and submits; \<open>futures\<close> holds what each submitted task ends with. The pool
  runs the tasks while the loop goes on; the model fixes the schedule in which a task
  runs to its end as soon as it is submitted.
\<close>

fun submit_loop ::
  "env \<Rightarrow> canvas_file plist \<Rightarrow> pystr \<Rightarrow> (exn + unit) list \<Rightarrow> world \<Rightarrow> ((exn + unit) list) result"
where
  "submit_loop env PNil folder_dir futures w = (Inr futures, w)"
| "submit_loop env (PRaise e) folder_dir futures w = (Inl e, w)"
| "submit_loop env (PCons f fs) folder_dir futures w =
     (if \<not> has_url f
      then submit_loop env fs folder_dir futures (emit (Print (SkippingFileNoURL f)) w)
      else
        let url = the (file_url f); w1 = emit (HttpHead url) w in
        case head_content_length env url of
          Inl m \<Rightarrow> (Inl (OtherException m), w1)
        | Inr file_size \<Rightarrow>
            (case download_file env url (display_name f) folder_dir
                    (emit (Submit url (display_name f) folder_dir) w1) of
               (r, w2) \<Rightarrow> submit_loop env fs folder_dir (futures @ [r]) w2))"

text \<open>
  The second loop (lines 76 and 77): \<^verbatim>\<open>future.result()\<close> raises again what the task
  raised.
\<close>

fun join_futures :: "(exn + unit) list \<Rightarrow> exn + unit" where
  "join_futures [] = Inr ()"
| "join_futures (Inl e # rs) = Inl e"
| "join_futures (Inr u # rs) = join_futures rs"

text \<open>
  Leaving the \<^verbatim>\<open>with\<close> block waits for the submitted tasks, also when the first loop
  raised; then the exception goes on to the caller.
\<close>

definition process_files :: "env \<Rightarrow> canvas_file plist \<Rightarrow> pystr \<Rightarrow> world \<Rightarrow> unit result" where
  "process_files env fs folder_dir w =
     (case submit_loop env fs folder_dir [] w of
        (Inl e, w') \<Rightarrow> (Inl e, w')
      | (Inr futures, w') \<Rightarrow> (join_futures futures, w'))"

section \<open>The folder walker\<close>

fun is_unauthorized :: "exn \<Rightarrow> bool" where
  "is_unauthorized (Unauthorized m) = True"
| "is_unauthorized (Forbidden m) = False"
| "is_unauthorized (ResourceDoesNotExist m) = False"
| "is_unauthorized StopIteration = False"
| "is_unauthorized (OtherException m) = False"

fun is_not_found :: "exn \<Rightarrow> bool" where
  "is_not_found (Unauthorized m) = False"
| "is_not_found (Forbidden m) = False"
| "is_not_found (ResourceDoesNotExist m) = True"
| "is_not_found StopIteration = False"
| "is_not_found (OtherException m) = False"

text \<open>
  \<^verbatim>\<open>download_folder_contents(folder, folder_dir)\<close>, lines 80 to 90, and its loop over
  the subfolders (lines 85 to 88). The handler of line 89 catches \<^verbatim>\<open>Unauthorized\<close>
  from anywhere in the body; any other exception leaves the function.
\<close>

fun download_folder_contents :: "env \<Rightarrow> folder \<Rightarrow> pystr \<Rightarrow> world \<Rightarrow> unit result"
and folder_try :: "env \<Rightarrow> folder \<Rightarrow> pystr \<Rightarrow> world \<Rightarrow> unit result"
and subfolder_loop :: "env \<Rightarrow> folders \<Rightarrow> pystr \<Rightarrow> world \<Rightarrow> unit result"
where
  "download_folder_contents env folder folder_dir w =
     (case folder_try env folder folder_dir w of
        (Inl e, w') \<Rightarrow>
          if is_unauthorized e
          then (Inr (), emit (Print (UnauthorizedFolder (folder_id folder) e)) w')
          else (Inl e, w')
      | (Inr u, w') \<Rightarrow> (Inr (), w'))"
| "folder_try env (Folder fid nm full fls subs) folder_dir w =
     (case process_files env fls folder_dir (emit (ApiCall (GetFiles fid)) w) of
        (Inl e, w1) \<Rightarrow> (Inl e, w1)
      | (Inr u, w1) \<Rightarrow>
          subfolder_loop env subs folder_dir (emit (ApiCall (GetSubfolders fid)) w1))"
| "subfolder_loop env FNil folder_dir w = (Inr (), w)"
| "subfolder_loop env (FRaise e) folder_dir w = (Inl e, w)"
| "subfolder_loop env (FCons subfolder rest) folder_dir w =
     (let subfolder_dir =
            path_join folder_dir (sanitize_filename (unicode_alnum env) (folder_name subfolder)) in
      case makedirs subfolder_dir w of
        (Inl e, w1) \<Rightarrow> (Inl e, w1)
      | (Inr u, w1) \<Rightarrow>
          (case download_folder_contents env subfolder subfolder_dir w1 of
             (Inl e, w2) \<Rightarrow> (Inl e, w2)
           | (Inr u', w2) \<Rightarrow> subfolder_loop env rest folder_dir w2))"

section \<open>The course processor\<close>

text \<open>
  \<^verbatim>\<open>next(f for f in folders if f.full_name == "course files")\<close>, lines 113 to 115:
  the first match, \<^verbatim>\<open>StopIteration\<close> when the listing ends without one.
\<close>

fun find_root :: "folders \<Rightarrow> exn + folder" where
  "find_root FNil = Inl StopIteration"
| "find_root (FRaise e) = Inl e"
| "find_root (FCons f fs) = (if full_name f = py ''course files'' then Inr f else find_root fs)"

text \<open>The first pass, lines 111 to 120.\<close>

definition course_files_pass :: "env \<Rightarrow> course \<Rightarrow> nat \<Rightarrow> pystr \<Rightarrow> world \<Rightarrow> unit result" where
  "course_files_pass env c course_id course_dir w =
     (let w1 = emit (ApiCall (GetFolders course_id)) w in
      case (case find_root (course_folders c) of
              Inl e \<Rightarrow> (Inl e, w1)
            | Inr root_folder \<Rightarrow> download_folder_contents env root_folder course_dir w1) of
        (Inl e, w2) \<Rightarrow>
          (Inr (), emit (Print (if is_unauthorized e then UnauthorizedCourseFiles course_id e
                                else ErrorCourseFiles course_id e)) w2)
      | (Inr u, w2) \<Rightarrow> (Inr (), w2))"

text \<open>One module item, lines 131 to 145.\<close>

definition process_item :: "env \<Rightarrow> module_item \<Rightarrow> pystr \<Rightarrow> nat \<Rightarrow> world \<Rightarrow> unit result" where
  "process_item env item module_dir course_id w =
     (if item_type item \<noteq> py ''File'' then (Inr (), w)
      else
        let w1 = emit (ApiCall (GetFile (content_id item))) w in
        case (case get_file env (content_id item) of
                Inl e \<Rightarrow> (Inl e, w1)
              | Inr f \<Rightarrow>
                  if has_url f then process_files env (PCons f PNil) module_dir w1
                  else (Inr (), emit (Print (NoURLModuleItem (item_id item) course_id)) w1)) of
          (Inl e, w2) \<Rightarrow>
            if is_not_found e
            then (Inr (), emit (Print (FileNotFoundModuleItem (item_id item) course_id)) w2)
            else (Inl e, w2)
        | (Inr u, w2) \<Rightarrow> (Inr (), w2))"

fun process_items :: "env \<Rightarrow> module_item plist \<Rightarrow> pystr \<Rightarrow> nat \<Rightarrow> world \<Rightarrow> unit result" where
  "process_items env PNil module_dir course_id w = (Inr (), w)"
| "process_items env (PRaise e) module_dir course_id w = (Inl e, w)"
| "process_items env (PCons item items) module_dir course_id w =
     (case process_item env item module_dir course_id w of
        (Inl e, w1) \<Rightarrow> (Inl e, w1)
      | (Inr u, w1) \<Rightarrow> process_items env items module_dir course_id w1)"

text \<open>One module, lines 125 to 155.\<close>

definition process_module :: "env \<Rightarrow> canvas_module \<Rightarrow> pystr \<Rightarrow> nat \<Rightarrow> world \<Rightarrow> unit result" where
  "process_module env m course_dir course_id w =
     (let module_dir =
            path_join course_dir (sanitize_filename (unicode_alnum env) (name_of_module m)) in
      case makedirs module_dir w of
        (Inl e, w1) \<Rightarrow> (Inl e, w1)
      | (Inr u, w1) \<Rightarrow>
          (case process_items env (get_module_items m) module_dir course_id
                  (emit (ApiCall (GetModuleItems (module_id m))) w1) of
             (Inl e, w2) \<Rightarrow>
               (Inr (), emit (Print (if is_unauthorized e
                                     then UnauthorizedModuleItems (module_id m) course_id e
                                     else ErrorModuleItems (module_id m) course_id e)) w2)
           | (Inr u', w2) \<Rightarrow> (Inr (), w2)))"

fun process_modules :: "env \<Rightarrow> canvas_module plist \<Rightarrow> pystr \<Rightarrow> nat \<Rightarrow> world \<Rightarrow> unit result" where
  "process_modules env PNil course_dir course_id w = (Inr (), w)"
| "process_modules env (PRaise e) course_dir course_id w = (Inl e, w)"
| "process_modules env (PCons m ms) course_dir course_id w =
     (case process_module env m course_dir course_id w of
        (Inl e, w1) \<Rightarrow> (Inl e, w1)
      | (Inr u, w1) \<Rightarrow> process_modules env ms course_dir course_id w1)"

text \<open>The second pass, lines 122 to 161.\<close>

definition modules_pass :: "env \<Rightarrow> course \<Rightarrow> nat \<Rightarrow> pystr \<Rightarrow> world \<Rightarrow> unit result" where
  "modules_pass env c course_id course_dir w =
     (case process_modules env (get_modules c) course_dir course_id
             (emit (ApiCall (GetModules course_id)) w) of
        (Inl e, w1) \<Rightarrow>
          (Inr (), emit (Print (if is_unauthorized e then UnauthorizedModules course_id e
                                else ErrorModules course_id e)) w1)
      | (Inr u, w1) \<Rightarrow> (Inr (), w1))"

text \<open>The body of the outer \<^verbatim>\<open>try\<close> of \<^verbatim>\<open>download_course_files\<close>, lines 95 to 161.\<close>

definition course_try :: "env \<Rightarrow> nat \<Rightarrow> world \<Rightarrow> unit result" where
  "course_try env course_id w =
     (let w0 = emit (ApiCall (GetCourse course_id)) w in
      case get_course env course_id of
        Inl e \<Rightarrow> (Inl e, w0)
      | Inr c \<Rightarrow>
          (let w1 = emit (Print (ProcessingCourse (course_name c))) w0;
               course_dir = path_join (py ''canvas_downloads'')
                              (sanitize_filename (unicode_alnum env) (course_name c)) in
           if path_exists w1 course_dir
           then (Inr (), emit (Print (SkippingCourse (course_name c))) w1)
           else
             (case makedirs course_dir w1 of
                (Inl e, w2) \<Rightarrow> (Inl e, w2)
              | (Inr u, w2) \<Rightarrow>
                  (case course_files_pass env c course_id course_dir w2 of
                     (Inl e, w3) \<Rightarrow> (Inl e, w3)
                   | (Inr u', w3) \<Rightarrow> modules_pass env c course_id course_dir w3))))"

text \<open>\<^verbatim>\<open>download_course_files(course_id)\<close>, lines 93 to 168.\<close>

definition download_course_files :: "env \<Rightarrow> nat \<Rightarrow> world \<Rightarrow> unit result" where
  "download_course_files env course_id w =
     (case course_try env course_id w of
        (Inl e, w1) \<Rightarrow>
          (Inr (), emit (Print (if is_unauthorized e then UnauthorizedCourse course_id e
                                else if is_not_found e then CourseDoesNotExist course_id e
                                else ErrorCourse course_id e)) w1)
      | (Inr u, w1) \<Rightarrow> (Inr (), w1))"

section \<open>A concrete world\<close>

text \<open>A course, a network and a file system on which the theorems below are run.\<close>

definition ex_course :: course where
  "ex_course = \<lparr>course_name = py ''CS 1/A'', course_folders = FNil, get_modules = PNil\<rparr>"

definition ex_world :: world where
  "ex_world =
     \<lparr>dirs = {py ''canvas_downloads'', py ''canvas_downloads/CS 1_A''},
      files = Map.empty, trace = []\<rparr>"

definition ex_file_ok :: canvas_file where
  "ex_file_ok = \<lparr>file_url = Some (py ''http://ok''), display_name = py ''a b?.txt''\<rparr>"

definition ex_file_none :: canvas_file where
  "ex_file_none = \<lparr>file_url = None, display_name = py ''n''\<rparr>"

definition ex_file_bad :: canvas_file where
  "ex_file_bad = \<lparr>file_url = Some (py ''http://bad''), display_name = py ''b''\<rparr>"

definition ex_file_404 :: canvas_file where
  "ex_file_404 = \<lparr>file_url = Some (py ''http://404''), display_name = py ''c''\<rparr>"

text \<open>
  A folder whose file listing raises \<open>Unauthorized\<close>, one whose listing raises
  \<open>Forbidden\<close>, and a sibling with one file.
\<close>

definition ex_locked :: folder where
  "ex_locked = Folder 2 (py ''L'') (py ''course files/L'') (PRaise (Unauthorized (py ''no''))) FNil"

definition ex_forbidden :: folder where
  "ex_forbidden = Folder 4 (py ''F'') (py ''course files/F'') (PRaise (Forbidden (py ''denied''))) FNil"

definition ex_open :: folder where
  "ex_open = Folder 3 (py ''O'') (py ''course files/O'') (PCons ex_file_ok PNil) FNil"

text \<open>Three nested folders with a file in the innermost, below two different roots.\<close>

definition ex_c :: folder where
  "ex_c = Folder 13 (py ''C'') (py ''course files/x/1/B/C'') (PCons ex_file_ok PNil) FNil"

definition ex_b :: folder where
  "ex_b = Folder 12 (py ''B'') (py ''course files/x/1/B'') PNil (FCons ex_c FNil)"

definition ex_a :: folder where
  "ex_a = Folder 11 (py ''x/1'') (py ''course files/x/1'') PNil (FCons ex_b FNil)"

definition ex_tree :: folder where
  "ex_tree = Folder 10 (py ''course files'') (py ''course files'') PNil (FCons ex_a FNil)"

definition ex_tree_bad :: folder where
  "ex_tree_bad =
     Folder 10 (py ''course files'') (py ''course files'') (PCons ex_file_bad PNil) (FCons ex_a FNil)"

text \<open>A course whose second folder is the one named \<^verbatim>\<open>course files\<close>.\<close>

definition ex_course_files :: course where
  "ex_course_files =
     \<lparr>course_name = py ''M'',
      course_folders = FCons ex_a (FCons ex_tree (FCons ex_locked FNil)),
      get_modules = PNil\<rparr>"

definition ex_env :: env where
  "ex_env =
     \<lparr>unicode_alnum = (\<lambda>c. False),
      head_content_length = (\<lambda>url. if url = py ''http://bad'' then Inl (py ''timeout'') else Inr 3),
      http_get = (\<lambda>url.
         if url = py ''http://ok''
         then Inr \<lparr>status_code = 200, error_text = [], iter_content = PCons ''abc'' PNil\<rparr>
         else if url = py ''http://404''
         then Inr \<lparr>status_code = 404, error_text = py ''404'', iter_content = PNil\<rparr>
         else if url = py ''http://304''
         then Inr \<lparr>status_code = 304, error_text = [], iter_content = PCons ''old'' PNil\<rparr>
         else Inl (py ''refused'')),
      get_course = (\<lambda>i. if i = 1 then Inr ex_course else if i = 2 then Inr ex_course_files
                         else Inl (ResourceDoesNotExist (py ''gone''))),
      get_file = (\<lambda>i. Inl (ResourceDoesNotExist (py ''gone'')))\<rparr>"

text \<open>The same network, on which every GET is refused.\<close>

definition ex_env_down :: env where
  "ex_env_down = ex_env\<lparr>http_get := (\<lambda>url. Inl (py ''refused''))\<rparr>"

section \<open>What the claims count\<close>

text \<open>A list of files followed by the rest of a listing.\<close>

fun prepend :: "'a list \<Rightarrow> 'a plist \<Rightarrow> 'a plist" where
  "prepend [] rest = rest"
| "prepend (x # xs) rest = PCons x (prepend xs rest)"

text \<open>The log lines of line 60 and the calls of line 71 in the trace of a world.\<close>

fun is_skip_log :: "event \<Rightarrow> bool" where
  "is_skip_log (Print (SkippingFileNoURL f)) = True"
| "is_skip_log e = False"

fun is_submit :: "event \<Rightarrow> bool" where
  "is_submit (Submit url name folder_dir) = True"
| "is_submit e = False"

definition skip_logs :: "world \<Rightarrow> nat" where
  "skip_logs w = length (filter is_skip_log (trace w))"

definition download_attempts :: "world \<Rightarrow> nat" where
  "download_attempts w = length (filter is_submit (trace w))"

text \<open>Whether line 62 raises for the URL of a file.\<close>

definition probe_raises :: "env \<Rightarrow> canvas_file \<Rightarrow> bool" where
  "probe_raises env f =
     (case head_content_length env (the (file_url f)) of Inl m \<Rightarrow> True | Inr n \<Rightarrow> False)"

text \<open>
  What the GET of line 41 raises, or else what the check of line 42 raises for a status
  from 400 to 599, if anything.
\<close>

definition get_failure :: "env \<Rightarrow> pystr \<Rightarrow> pystr option" where
  "get_failure env url =
     (case http_get env url of Inl m \<Rightarrow> Some m | Inr resp \<Rightarrow> raise_for_status resp)"

text \<open>The files of a batch that line 59 skips.\<close>

definition without_url :: "canvas_file list \<Rightarrow> canvas_file list" where
  "without_url fs = filter (\<lambda>f. \<not> has_url f) fs"

text \<open>A list of folders followed by the rest of a listing.\<close>

fun fprepend :: "folder list \<Rightarrow> folders \<Rightarrow> folders" where
  "fprepend [] rest = rest"
| "fprepend (x # xs) rest = FCons x (fprepend xs rest)"

text \<open>
  A later world: no directory and no file is lost, and the trace is only appended to.
\<close>

definition extends :: "world \<Rightarrow> world \<Rightarrow> bool" where
  "extends w w' =
     (dirs w \<subseteq> dirs w' \<and> dom (files w) \<subseteq> dom (files w') \<and>
      take (length (trace w)) (trace w') = trace w)"

text \<open>
  Whether the trace holds a log line saying that the download from a URL did not take
  place (line 35) or failed (line 52).
\<close>

fun failure_of :: "pystr \<Rightarrow> event \<Rightarrow> bool" where
  "failure_of url (Print (InvalidURL u)) = (u = url)"
| "failure_of url (Print (DownloadFailed u e)) = (u = url)"
| "failure_of url ev = False"

definition download_failed :: "pystr \<Rightarrow> world \<Rightarrow> bool" where
  "download_failed url w = list_ex (failure_of url) (trace w)"

section \<open>Folder trees\<close>

text \<open>The elements a listing yields before it ends or raises, and whether it ends.\<close>

fun elems :: "'a plist \<Rightarrow> 'a list" where
  "elems PNil = []"
| "elems (PCons x xs) = x # elems xs"
| "elems (PRaise e) = []"

fun no_raise :: "'a plist \<Rightarrow> bool" where
  "no_raise PNil = True"
| "no_raise (PCons x xs) = no_raise xs"
| "no_raise (PRaise e) = False"

fun subfolders :: "folders \<Rightarrow> folder list" where
  "subfolders FNil = []"
| "subfolders (FCons f fs) = f # subfolders fs"
| "subfolders (FRaise e) = []"

text \<open>A tree in which no listing raises.\<close>

fun complete :: "folder \<Rightarrow> bool"
and complete_list :: "folders \<Rightarrow> bool"
where
  "complete (Folder fid nm full fls subs) = (no_raise fls \<and> complete_list subs)"
| "complete_list FNil = True"
| "complete_list (FCons f fs) = (complete f \<and> complete_list fs)"
| "complete_list (FRaise e) = False"

text \<open>
  \<open>on_path root chain\<close>: the first folder of \<open>chain\<close> is a subfolder of \<open>root\<close>, the second
  a subfolder of the first, and so on; \<open>local_dir\<close> is the local directory that mirrors
  the last folder of the chain, when \<open>root\<close> is mirrored by \<open>d\<close>.
\<close>

fun on_path :: "folder \<Rightarrow> folder list \<Rightarrow> bool" where
  "on_path root [] = True"
| "on_path root (c # cs) = (c \<in> set (subfolders (get_folders root)) \<and> on_path c cs)"

definition local_dir :: "env \<Rightarrow> pystr \<Rightarrow> folder list \<Rightarrow> pystr" where
  "local_dir env d chain =
     foldl (\<lambda>p f. path_join p (sanitize_filename (unicode_alnum env) (folder_name f))) d chain"

text \<open>
  A file of a remote folder is mirrored in the local directory \<open>dir\<close>: its download has
  been submitted with that directory, and either a local file exists under the
  sanitised display name or the trace says that the download failed.
\<close>

definition mirrored_file :: "env \<Rightarrow> pystr \<Rightarrow> canvas_file \<Rightarrow> world \<Rightarrow> bool" where
  "mirrored_file env dir g w =
     (Submit (the (file_url g)) (display_name g) dir \<in> set (trace w) \<and>
      (files w (path_join dir (sanitize_filename (unicode_alnum env) (display_name g))) \<noteq> None \<or>
       download_failed (the (file_url g)) w))"

section \<open>Properties\<close>

subsection \<open>The sanitiser\<close>

lemma allowed_underscore: "allowed uni 95"
  by (simp add: allowed_def)

text \<open>
  C1: for every string \<open>s\<close>, \<open>sanitize_filename s\<close> contains only characters of the
  allow-list (word characters, hyphen, underscore, period, space), and sanitising a
  sanitised name changes nothing.
\<close>

theorem sanitize_filename_allowed_idempotent:
  "(\<forall>c \<in> set (sanitize_filename uni s). allowed uni c) \<and>
   sanitize_filename uni (sanitize_filename uni s) = sanitize_filename uni s"
proof
  show "\<forall>c \<in> set (sanitize_filename uni s). allowed uni c"
    by (auto simp: sanitize_filename_def allowed_underscore)
  show "sanitize_filename uni (sanitize_filename uni s) = sanitize_filename uni s"
    by (simp add: sanitize_filename_def allowed_underscore)
qed

theorem sanitize_filename_allowed_idempotent_witness:
  "sanitize_filename (\<lambda>c. False) (py ''a/b: c-d_e.txt'') = py ''a_b_ c-d_e.txt'' \<and>
   list_all (allowed (\<lambda>c. False)) (py ''a_b_ c-d_e.txt'') \<and>
   sanitize_filename (\<lambda>c. False) (py ''a_b_ c-d_e.txt'') = py ''a_b_ c-d_e.txt''"
proof -
  have e: "sanitize_filename (\<lambda>c. False) (py ''a/b: c-d_e.txt'') = py ''a_b_ c-d_e.txt''"
    by (simp add: sanitize_filename_def py_def allowed_def word_char_def ascii_alnum_def)
  from sanitize_filename_allowed_idempotent [of "\<lambda>c. False" "py ''a/b: c-d_e.txt''"]
  show ?thesis
    unfolding e by (simp add: list_all_iff)
qed

subsection \<open>The course processor on an existing directory\<close>

lemma ex_course_dir:
  "path_join (py ''canvas_downloads'')
     (sanitize_filename (unicode_alnum ex_env) (course_name ex_course))
     = py ''canvas_downloads/CS 1_A''"
  by (simp add: ex_env_def ex_course_def path_join_def startswith_def sanitize_filename_def
      allowed_def word_char_def ascii_alnum_def py_def)

text \<open>
  C2: when the course resolves and its local directory (the fixed root joined with the
  sanitised course name) exists, \<open>download_course_files\<close> returns after the request for
  the course and the two log lines: no other call on the API, no call on the file
  system, directories and files as they were.
\<close>

theorem existing_course_directory_skipped:
  assumes "get_course env course_id = Inr c"
    and "path_exists w (path_join (py ''canvas_downloads'')
           (sanitize_filename (unicode_alnum env) (course_name c)))"
  shows "download_course_files env course_id w =
           (Inr (), w\<lparr>trace := trace w @
              [ApiCall (GetCourse course_id),
               Print (ProcessingCourse (course_name c)),
               Print (SkippingCourse (course_name c))]\<rparr>)"
  using assms
  by (simp add: download_course_files_def course_try_def Let_def emit_def path_exists_def)

theorem existing_course_directory_skipped_witness:
  "download_course_files ex_env 1 ex_world =
     (Inr (), ex_world\<lparr>trace := trace ex_world @
        [ApiCall (GetCourse 1),
         Print (ProcessingCourse (course_name ex_course)),
         Print (SkippingCourse (course_name ex_course))]\<rparr>)"
proof -
  have c: "get_course ex_env 1 = Inr ex_course"
    by (simp add: ex_env_def)
  have p: "path_exists ex_world (path_join (py ''canvas_downloads'')
             (sanitize_filename (unicode_alnum ex_env) (course_name ex_course)))"
    unfolding ex_course_dir by (simp add: path_exists_def ex_world_def)
  show ?thesis
    by (rule existing_course_directory_skipped [OF c p])
qed

subsection \<open>The downloader\<close>

text \<open>
  C10: a URL that does not start with \<^verbatim>\<open>http\<close> makes \<open>download_file\<close> log the
  invalid-URL line and return: the trace gains that line only (no HTTP request, no call
  on the file system), and directories and files stay as they were. The URL need not
  even be non-empty.
\<close>

theorem download_file_invalid_url:
  "\<not> startswith url (py ''http'') \<Longrightarrow>
   download_file env url name folder_dir w =
     (Inr (), w\<lparr>trace := trace w @ [Print (InvalidURL url)]\<rparr>)"
  by (simp add: download_file_def emit_def)

theorem download_file_invalid_url_witness:
  "download_file ex_env (py ''ftp://x'') (py ''a'') (py ''d'') ex_world =
     (Inr (), ex_world\<lparr>trace := trace ex_world @ [Print (InvalidURL (py ''ftp://x''))]\<rparr>)"
  using download_file_invalid_url [of "py ''ftp://x''" ex_env "py ''a''" "py ''d''" ex_world]
  by (simp add: startswith_def py_def)

subsection \<open>Batches\<close>

lemma write_chunks_trace: "write_chunks p cs w = (r, w') \<Longrightarrow> trace w' = trace w"
  by (induction cs arbitrary: w) (auto simp: write_chunk_def split: if_splits)

lemma download_file_returns: "fst (download_file env url name d w) = Inr ()"
  by (simp add: download_file_def Let_def split: prod.splits sum.splits)

lemma download_try_trace:
  "download_try env url dest w = (r, w') \<Longrightarrow>
   \<exists>evs. trace w' = trace w @ evs \<and> filter is_skip_log evs = [] \<and> filter is_submit evs = []"
  by (auto simp: download_try_def Let_def emit_def open_wb_def
      split: sum.splits option.splits prod.splits if_splits dest!: write_chunks_trace)

lemma download_file_trace:
  "download_file env url name d w = (r, w') \<Longrightarrow>
   \<exists>evs. trace w' = trace w @ evs \<and> filter is_skip_log evs = [] \<and> filter is_submit evs = []"
  by (auto simp: download_file_def Let_def emit_def
      split: sum.splits prod.splits if_splits dest!: download_try_trace)

lemma download_file_counts:
  assumes "download_file env url name d w = (r, w')"
  shows "skip_logs w' = skip_logs w" and "download_attempts w' = download_attempts w"
  using download_file_trace [OF assms] by (auto simp: skip_logs_def download_attempts_def)

lemma counts_emit:
  "skip_logs (emit e w) = skip_logs w + (if is_skip_log e then 1 else 0)"
  "download_attempts (emit e w) = download_attempts w + (if is_submit e then 1 else 0)"
  by (simp_all add: skip_logs_def download_attempts_def emit_def)

lemma submit_loop_prepend:
  assumes "\<forall>g \<in> set before. has_url g \<longrightarrow> \<not> probe_raises env g"
  shows "\<exists>w1 rs. (\<forall>rest. submit_loop env (prepend before rest) d futs w = submit_loop env rest d (futs @ rs) w1)
      \<and> (\<forall>r \<in> set rs. r = Inr ())
      \<and> skip_logs w1 = skip_logs w + length (filter (\<lambda>g. \<not> has_url g) before)
      \<and> download_attempts w1 = download_attempts w + length (filter has_url before)"
  using assms
proof (induction before arbitrary: futs w)
  case Nil
  show ?case by (rule exI [of _ w], rule exI [of _ "[]"]) simp
next
  case (Cons g gs)
  show ?case
  proof (cases "has_url g")
    case False
    from Cons.prems have "\<forall>g \<in> set gs. has_url g \<longrightarrow> \<not> probe_raises env g" by simp
    from Cons.IH [OF this, of futs "emit (Print (SkippingFileNoURL g)) w"]
    obtain w1 rs where h:
      "\<forall>rest. submit_loop env (prepend gs rest) d futs (emit (Print (SkippingFileNoURL g)) w)
           = submit_loop env rest d (futs @ rs) w1"
      "\<forall>r \<in> set rs. r = Inr ()"
      "skip_logs w1 = skip_logs (emit (Print (SkippingFileNoURL g)) w) + length (filter (\<lambda>g. \<not> has_url g) gs)"
      "download_attempts w1 = download_attempts (emit (Print (SkippingFileNoURL g)) w) + length (filter has_url gs)"
      by blast
    show ?thesis
      apply (rule exI [of _ w1], rule exI [of _ rs])
      using h False by (simp add: counts_emit)
  next
    case True
    with Cons.prems have np: "\<not> probe_raises env g" by simp
    then obtain n where n: "head_content_length env (the (file_url g)) = Inr n"
      by (auto simp: probe_raises_def split: sum.splits)
    define w0 where "w0 = emit (Submit (the (file_url g)) (display_name g) d) (emit (HttpHead (the (file_url g))) w)"
    obtain r w2 where dl: "download_file env (the (file_url g)) (display_name g) d w0 = (r, w2)"
      by (cases "download_file env (the (file_url g)) (display_name g) d w0") 
    have r: "r = Inr ()" using download_file_returns [of env "the (file_url g)" "display_name g" d w0] dl by simp
    from Cons.prems have "\<forall>g \<in> set gs. has_url g \<longrightarrow> \<not> probe_raises env g" by simp
    from Cons.IH [OF this, of "futs @ [r]" w2]
    obtain w1 rs where h:
      "\<forall>rest. submit_loop env (prepend gs rest) d (futs @ [r]) w2 = submit_loop env rest d ((futs @ [r]) @ rs) w1"
      "\<forall>r \<in> set rs. r = Inr ()"
      "skip_logs w1 = skip_logs w2 + length (filter (\<lambda>g. \<not> has_url g) gs)"
      "download_attempts w1 = download_attempts w2 + length (filter has_url gs)"
      by blast
    have c: "skip_logs w2 = skip_logs w" "download_attempts w2 = download_attempts w + 1"
      using download_file_counts [OF dl] by (simp_all add: w0_def counts_emit)
    show ?thesis
      apply (rule exI [of _ w1], rule exI [of _ "r # rs"])
      using h True n dl r c by (simp add: Let_def w0_def)
  qed
qed

lemma join_futures_ok: "\<forall>r \<in> set rs. r = Inr () \<Longrightarrow> join_futures rs = Inr ()"
  by (induction rs) auto

lemma of_list_prepend: "of_list xs = prepend xs PNil"
  by (induction xs) auto

lemma without_url_length: "length (filter has_url fs) = length fs - length (without_url fs)"
  using sum_length_filter_compl [of has_url fs] by (simp add: without_url_def)

text \<open>
  C3, as amended: for a batch of \<open>M\<close> files of which \<open>N\<close> have no URL, if the size probe
  raises for none of the others, \<open>process_files\<close> returns normally, logs exactly \<open>N\<close>
  skip lines and submits exactly \<open>M - N\<close> downloads. The files without a URL need no
  hypothesis: they never end the batch.
\<close>

theorem process_files_counts:
  assumes "\<forall>f \<in> set fs. has_url f \<longrightarrow> \<not> probe_raises env f"
  shows "\<exists>w'. process_files env (of_list fs) folder_dir w = (Inr (), w') \<and>
           skip_logs w' = skip_logs w + length (without_url fs) \<and>
           download_attempts w' = download_attempts w + (length fs - length (without_url fs))"
proof -
  from submit_loop_prepend [OF assms, of folder_dir "[]" w]
  obtain w1 rs where h:
    "\<forall>rest. submit_loop env (prepend fs rest) folder_dir [] w =
       submit_loop env rest folder_dir ([] @ rs) w1"
    "\<forall>r \<in> set rs. r = Inr ()"
    "skip_logs w1 = skip_logs w + length (filter (\<lambda>g. \<not> has_url g) fs)"
    "download_attempts w1 = download_attempts w + length (filter has_url fs)"
    by blast
  from h(1) have "submit_loop env (of_list fs) folder_dir [] w = (Inr rs, w1)"
    by (simp add: of_list_prepend)
  then have "process_files env (of_list fs) folder_dir w = (Inr (), w1)"
    by (simp add: process_files_def join_futures_ok [OF h(2)])
  with h(3,4) show ?thesis
    by (simp add: without_url_length) (simp add: without_url_def)
qed

lemma ex_has_url:
  "has_url ex_file_ok" "has_url ex_file_bad" "has_url ex_file_404" "\<not> has_url ex_file_none"
  by (simp_all add: has_url_def ex_file_ok_def ex_file_bad_def ex_file_404_def ex_file_none_def
      py_def)

lemma ex_probes:
  "\<not> probe_raises ex_env ex_file_ok" "\<not> probe_raises ex_env ex_file_404"
  "head_content_length ex_env (the (file_url ex_file_bad)) = Inl (py ''timeout'')"
  by (simp_all add: probe_raises_def ex_env_def ex_file_ok_def ex_file_404_def ex_file_bad_def
      py_def)

theorem process_files_counts_witness:
  "fst (process_files ex_env (of_list [ex_file_none, ex_file_ok, ex_file_404]) (py ''d'') ex_world)
     = Inr () \<and>
   skip_logs (snd (process_files ex_env (of_list [ex_file_none, ex_file_ok, ex_file_404])
                (py ''d'') ex_world)) = skip_logs ex_world + 1 \<and>
   download_attempts (snd (process_files ex_env (of_list [ex_file_none, ex_file_ok, ex_file_404])
                (py ''d'') ex_world)) = download_attempts ex_world + 2"
proof -
  have h: "\<forall>f \<in> set [ex_file_none, ex_file_ok, ex_file_404].
             has_url f \<longrightarrow> \<not> probe_raises ex_env f"
    by (simp add: ex_has_url ex_probes)
  have n: "length (without_url [ex_file_none, ex_file_ok, ex_file_404]) = 1"
    by (simp add: without_url_def ex_has_url)
  from process_files_counts [OF h, of "py ''d''" ex_world] show ?thesis
    unfolding n by auto
qed

text \<open>
  C3 as stated fails when a size probe raises: in this batch of three files, one without
  a URL, the probe of the first raises, \<open>process_files\<close> raises with it, and neither a
  skip line nor a download has been added.
\<close>

theorem process_files_counts_counterexample:
  "fst (process_files ex_env (of_list [ex_file_bad, ex_file_none, ex_file_ok]) (py ''d'') ex_world)
     = Inl (OtherException (py ''timeout'')) \<and>
   length [ex_file_bad, ex_file_none, ex_file_ok] = 3 \<and>
   length (without_url [ex_file_bad, ex_file_none, ex_file_ok]) = 1 \<and>
   skip_logs (snd (process_files ex_env (of_list [ex_file_bad, ex_file_none, ex_file_ok])
                (py ''d'') ex_world)) = skip_logs ex_world \<and>
   download_attempts (snd (process_files ex_env (of_list [ex_file_bad, ex_file_none, ex_file_ok])
                (py ''d'') ex_world)) = download_attempts ex_world"
  by (simp add: process_files_def Let_def ex_has_url ex_probes without_url_def counts_emit)

text \<open>
  C9: when the size probe raises for a file (the probes of the files before it having
  returned), \<open>process_files\<close> raises that exception; the world it leaves does not depend
  on the files after it, and the downloads submitted are those of the files before it.
\<close>

theorem probe_failure_aborts_batch:
  assumes "\<forall>g \<in> set before. has_url g \<longrightarrow> \<not> probe_raises env g"
    and "has_url f"
    and "head_content_length env (the (file_url f)) = Inl m"
  shows "\<exists>w'. process_files env (prepend before (PCons f later)) folder_dir w =
                 (Inl (OtherException m), w') \<and>
               process_files env (prepend before (PCons f later')) folder_dir w =
                 (Inl (OtherException m), w') \<and>
               download_attempts w' = download_attempts w + length (filter has_url before)"
proof -
  from submit_loop_prepend [OF assms(1), of folder_dir "[]" w]
  obtain w1 rs where h:
    "\<forall>rest. submit_loop env (prepend before rest) folder_dir [] w =
       submit_loop env rest folder_dir ([] @ rs) w1"
    "download_attempts w1 = download_attempts w + length (filter has_url before)"
    by blast
  let ?w' = "emit (HttpHead (the (file_url f))) w1"
  have "\<And>l. submit_loop env (prepend before (PCons f l)) folder_dir [] w =
          (Inl (OtherException m), ?w')"
    using h(1) assms(2,3) by (simp add: Let_def)
  then have "\<And>l. process_files env (prepend before (PCons f l)) folder_dir w =
          (Inl (OtherException m), ?w')"
    by (simp add: process_files_def)
  moreover have "download_attempts ?w' = download_attempts w + length (filter has_url before)"
    using h(2) by (simp add: counts_emit)
  ultimately show ?thesis by blast
qed

theorem probe_failure_aborts_batch_witness:
  "fst (process_files ex_env
          (prepend [ex_file_none, ex_file_ok] (PCons ex_file_bad (PCons ex_file_404 PNil)))
          (py ''d'') ex_world) = Inl (OtherException (py ''timeout'')) \<and>
   process_files ex_env
          (prepend [ex_file_none, ex_file_ok] (PCons ex_file_bad (PCons ex_file_404 PNil)))
          (py ''d'') ex_world =
   process_files ex_env
          (prepend [ex_file_none, ex_file_ok] (PCons ex_file_bad PNil))
          (py ''d'') ex_world \<and>
   download_attempts (snd (process_files ex_env
          (prepend [ex_file_none, ex_file_ok] (PCons ex_file_bad (PCons ex_file_404 PNil)))
          (py ''d'') ex_world)) = download_attempts ex_world + 1"
proof -
  have h: "\<forall>g \<in> set [ex_file_none, ex_file_ok]. has_url g \<longrightarrow> \<not> probe_raises ex_env g"
    by (simp add: ex_has_url ex_probes)
  from probe_failure_aborts_batch [OF h ex_has_url(2) ex_probes(3),
      of "PCons ex_file_404 PNil" "py ''d''" ex_world PNil]
  show ?thesis
    by (auto simp: ex_has_url)
qed

lemma submit_loop_futures:
  "submit_loop env fs d (pre @ futs) w =
     (case submit_loop env fs d futs w of
        (Inl e, w') \<Rightarrow> (Inl e, w')
      | (Inr rs, w') \<Rightarrow> (Inr (pre @ rs), w'))"
proof (induction fs arbitrary: futs w)
  case (PCons f fs)
  show ?case
    using PCons.IH [of futs] PCons.IH [of "futs @ [r]" for r]
    by (simp add: Let_def split: sum.splits prod.splits)
qed simp_all

lemma join_futures_append:
  "\<forall>r \<in> set pre. r = Inr () \<Longrightarrow> join_futures (pre @ rs) = join_futures rs"
  by (induction pre) auto

lemma process_files_prepend:
  assumes "\<forall>g \<in> set before. has_url g \<longrightarrow> \<not> probe_raises env g"
  shows "\<exists>w1. \<forall>rest. process_files env (prepend before rest) d w = process_files env rest d w1"
proof -
  from submit_loop_prepend [OF assms, of d "[]" w]
  obtain w1 rs where h:
    "\<forall>rest. submit_loop env (prepend before rest) d [] w = submit_loop env rest d ([] @ rs) w1"
    "\<forall>r \<in> set rs. r = Inr ()"
    by blast
  have "process_files env (prepend before rest) d w = process_files env rest d w1" for rest
  proof -
    have "submit_loop env (prepend before rest) d [] w = submit_loop env rest d (rs @ []) w1"
      using h(1) by simp
    then show ?thesis
      unfolding process_files_def submit_loop_futures [of env rest d rs "[]"]
      by (simp add: join_futures_append [OF h(2)] split: prod.splits sum.splits)
  qed
  then show ?thesis by blast
qed

lemma download_file_failure:
  assumes "startswith url (py ''http'')" and "get_failure env url = Some m"
  shows "download_file env url name d w =
     (Inr (), w\<lparr>trace := trace w @ [HttpGet url, Print (DownloadFailed url (OtherException m))]\<rparr>)"
  using assms
  by (auto simp: download_file_def download_try_def get_failure_def Let_def emit_def
      split: sum.splits option.splits)

lemma process_files_failed_head:
  assumes "file_url f = Some url" and "startswith url (py ''http'')"
    and "head_content_length env url = Inr n"
    and "get_failure env url = Some m"
  shows "process_files env (PCons f rest) d w =
           process_files env rest d
             (w\<lparr>trace := trace w @
                [HttpHead url, Submit url (display_name f) d,
                 HttpGet url, Print (DownloadFailed url (OtherException m))]\<rparr>)"
proof -
  have u: "has_url f"
    using assms(1,2) by (auto simp: has_url_def startswith_def py_def)
  let ?w1 = "emit (Submit url (display_name f) d) (emit (HttpHead url) w)"
  have dl: "download_file env url (display_name f) d ?w1 =
      (Inr (), ?w1\<lparr>trace := trace ?w1 @
         [HttpGet url, Print (DownloadFailed url (OtherException m))]\<rparr>)"
    by (rule download_file_failure [OF assms(2,4)])
  have "submit_loop env (PCons f rest) d [] w =
      submit_loop env rest d ([Inr ()] @ [])
        (?w1\<lparr>trace := trace ?w1 @ [HttpGet url, Print (DownloadFailed url (OtherException m))]\<rparr>)"
    using u assms(1,3) dl by (simp add: Let_def)
  then have "process_files env (PCons f rest) d w =
      process_files env rest d
        (?w1\<lparr>trace := trace ?w1 @ [HttpGet url, Print (DownloadFailed url (OtherException m))]\<rparr>)"
    unfolding process_files_def submit_loop_futures [of env rest d "[Inr ()]" "[]"]
    by (simp split: prod.splits sum.splits)
  then show ?thesis
    by (simp add: emit_def)
qed

text \<open>
  C4, as amended: \<open>download_file\<close> never raises. When the GET raises, or the response has
  a status from 400 to 599, the download task of that file returns after logging the
  failure, with nothing touched on the file system. Wherever the file stands in a batch
  whose earlier probes return, the batch goes on with the files after it exactly as the
  batch without that file does, from a world that differs by the four trace entries of
  the failed file only.
\<close>

theorem download_failure_contained:
  assumes "\<forall>g \<in> set before. has_url g \<longrightarrow> \<not> probe_raises env g"
    and "file_url f = Some url" and "startswith url (py ''http'')"
    and "head_content_length env url = Inr n"
    and "http_get env url = Inl m \<or>
         (\<exists>resp. http_get env url = Inr resp \<and> 400 \<le> status_code resp \<and>
                 status_code resp < 600 \<and> m = error_text resp)"
  shows "fst (download_file env url' name' d' w') = Inr () \<and>
         download_file env url (display_name f) d w0 =
           (Inr (), w0\<lparr>trace := trace w0 @
              [HttpGet url, Print (DownloadFailed url (OtherException m))]\<rparr>) \<and>
         (\<exists>w1. \<forall>rest.
            process_files env (prepend before (PCons f rest)) d w =
              process_files env rest d
                (w1\<lparr>trace := trace w1 @
                   [HttpHead url, Submit url (display_name f) d,
                    HttpGet url, Print (DownloadFailed url (OtherException m))]\<rparr>) \<and>
            process_files env (prepend before rest) d w = process_files env rest d w1)"
proof -
  have gf: "get_failure env url = Some m"
    using assms(5) by (auto simp: get_failure_def raise_for_status_def)
  from process_files_prepend [OF assms(1), of d w]
  obtain w1 where w1: "\<forall>rest. process_files env (prepend before rest) d w =
      process_files env rest d w1"
    by blast
  have k: "\<forall>rest.
      process_files env (prepend before (PCons f rest)) d w =
        process_files env rest d
          (w1\<lparr>trace := trace w1 @
             [HttpHead url, Submit url (display_name f) d,
              HttpGet url, Print (DownloadFailed url (OtherException m))]\<rparr>) \<and>
      process_files env (prepend before rest) d w = process_files env rest d w1"
    using w1 process_files_failed_head [OF assms(2,3,4) gf, of _ d w1] by simp
  have a: "fst (download_file env url' name' d' w') = Inr ()"
    by (rule download_file_returns)
  note b = download_file_failure [OF assms(3) gf, of "display_name f" d w0]
  from k have c: "\<exists>w1. \<forall>rest.
      process_files env (prepend before (PCons f rest)) d w =
        process_files env rest d
          (w1\<lparr>trace := trace w1 @
             [HttpHead url, Submit url (display_name f) d,
              HttpGet url, Print (DownloadFailed url (OtherException m))]\<rparr>) \<and>
      process_files env (prepend before rest) d w = process_files env rest d w1"
    by (rule exI)
  from a b c show ?thesis by (intro conjI)
qed

theorem download_failure_contained_witness:
  "download_file ex_env (py ''http://404'') (display_name ex_file_404) (py ''d'') ex_world =
     (Inr (), ex_world\<lparr>trace := trace ex_world @
        [HttpGet (py ''http://404''),
         Print (DownloadFailed (py ''http://404'') (OtherException (py ''404'')))]\<rparr>) \<and>
   (\<exists>w1.
      process_files ex_env (prepend [ex_file_none, ex_file_ok] (PCons ex_file_404 (PCons ex_file_ok PNil)))
          (py ''d'') ex_world =
        process_files ex_env (PCons ex_file_ok PNil) (py ''d'')
          (w1\<lparr>trace := trace w1 @
             [HttpHead (py ''http://404''),
              Submit (py ''http://404'') (display_name ex_file_404) (py ''d''),
              HttpGet (py ''http://404''),
              Print (DownloadFailed (py ''http://404'') (OtherException (py ''404'')))]\<rparr>) \<and>
      process_files ex_env (prepend [ex_file_none, ex_file_ok] (PCons ex_file_ok PNil))
          (py ''d'') ex_world =
        process_files ex_env (PCons ex_file_ok PNil) (py ''d'') w1)"
proof -
  have h: "\<forall>g \<in> set [ex_file_none, ex_file_ok]. has_url g \<longrightarrow> \<not> probe_raises ex_env g"
    by (simp add: ex_has_url ex_probes)
  have a: "file_url ex_file_404 = Some (py ''http://404'')"
    by (simp add: ex_file_404_def)
  have b: "startswith (py ''http://404'') (py ''http'')"
    by (simp add: startswith_def py_def)
  have c: "head_content_length ex_env (py ''http://404'') = Inr 3"
    by (simp add: ex_env_def py_def)
  have d: "http_get ex_env (py ''http://404'') = Inl (py ''404'') \<or>
         (\<exists>resp. http_get ex_env (py ''http://404'') = Inr resp \<and> 400 \<le> status_code resp \<and>
                 status_code resp < 600 \<and> py ''404'' = error_text resp)"
    by (simp add: ex_env_def py_def)
  note t = download_failure_contained
    [OF h a b c d, where d = "py ''d''" and w = ex_world and ?w0.0 = ex_world]
  from t have one: "download_file ex_env (py ''http://404'') (display_name ex_file_404) (py ''d'')
      ex_world =
     (Inr (), ex_world\<lparr>trace := trace ex_world @
        [HttpGet (py ''http://404''),
         Print (DownloadFailed (py ''http://404'') (OtherException (py ''404'')))]\<rparr>)"
    by blast
  from t obtain w1 where r: "\<forall>rest.
      process_files ex_env (prepend [ex_file_none, ex_file_ok] (PCons ex_file_404 rest))
          (py ''d'') ex_world =
        process_files ex_env rest (py ''d'')
          (w1\<lparr>trace := trace w1 @
             [HttpHead (py ''http://404''),
              Submit (py ''http://404'') (display_name ex_file_404) (py ''d''),
              HttpGet (py ''http://404''),
              Print (DownloadFailed (py ''http://404'') (OtherException (py ''404'')))]\<rparr>) \<and>
      process_files ex_env (prepend [ex_file_none, ex_file_ok] rest) (py ''d'') ex_world =
        process_files ex_env rest (py ''d'') w1"
    by blast
  from r [rule_format, of "PCons ex_file_ok PNil"] one show ?thesis
    by blast
qed

text \<open>
  C4 as stated fails for a status that is neither a success nor an error for the
  library: the response to this GET has status 304, the check of line 42 does not
  raise, the body is written to the destination and the download is logged as
  successful; no failure is caught or logged.
\<close>

theorem download_failure_contained_counterexample:
  "map_sum id status_code (http_get ex_env (py ''http://304'')) = Inr 304 \<and>
   download_file ex_env (py ''http://304'') (py ''n'') (py ''canvas_downloads'') ex_world =
     (Inr (), ex_world\<lparr>
        files := (files ex_world)(py ''canvas_downloads/n'' \<mapsto> ''old''),
        trace := trace ex_world @
          [HttpGet (py ''http://304''), OpenWrite (py ''canvas_downloads/n''), Print (Downloaded (py ''canvas_downloads/n''))]\<rparr>) \<and>
   \<not> download_failed (py ''http://304'')
       (snd (download_file ex_env (py ''http://304'') (py ''n'') (py ''canvas_downloads'') ex_world))"
proof -
  have g: "http_get ex_env (py ''http://304'') =
      Inr \<lparr>status_code = 304, error_text = [], iter_content = PCons ''old'' PNil\<rparr>"
    by (simp add: ex_env_def py_def)
  have p: "path_join (py ''canvas_downloads'') (sanitize_filename (unicode_alnum ex_env) (py ''n'')) = py ''canvas_downloads/n''"
    by (simp add: ex_env_def path_join_def startswith_def sanitize_filename_def
        allowed_def word_char_def ascii_alnum_def py_def)
  have s: "startswith (py ''http://304'') (py ''http'')"
    by (simp add: startswith_def py_def)
  have n: "py ''canvas_downloads/n'' \<notin> dirs ex_world"
    "ancestors (py ''canvas_downloads/n'') = [py ''canvas_downloads'']"
    "py ''canvas_downloads'' \<in> dirs ex_world"
    by (simp add: ex_world_def py_def, code_simp, simp add: ex_world_def)
  have dl: "download_file ex_env (py ''http://304'') (py ''n'') (py ''canvas_downloads'') ex_world =
     (Inr (), ex_world\<lparr>
        files := (files ex_world)(py ''canvas_downloads/n'' \<mapsto> ''old''),
        trace := trace ex_world @
          [HttpGet (py ''http://304''), OpenWrite (py ''canvas_downloads/n''), Print (Downloaded (py ''canvas_downloads/n''))]\<rparr>)"
    using n by (simp add: download_file_def s p download_try_def g raise_for_status_def Let_def
        open_wb_def emit_def write_chunk_def)
  have f: "\<not> download_failed (py ''http://304'')
       (snd (download_file ex_env (py ''http://304'') (py ''n'') (py ''canvas_downloads'') ex_world))"
    unfolding dl by (simp add: download_failed_def ex_world_def)
  from g dl f show ?thesis by simp
qed

subsection \<open>What a run leaves in place\<close>

text \<open>Every operation of the script leads to a later world.\<close>

lemma extends_iff:
  "extends w w' =
     (dirs w \<subseteq> dirs w' \<and> dom (files w) \<subseteq> dom (files w') \<and>
      (\<exists>evs. trace w' = trace w @ evs))"
proof -
  have "(take (length (trace w)) (trace w') = trace w) = (\<exists>evs. trace w' = trace w @ evs)"
    by (metis append_eq_conv_conj)
  then show ?thesis by (simp add: extends_def)
qed

lemma extends_refl [simp]: "extends w w"
  by (simp add: extends_def)

lemma extends_trans:
  assumes "extends a b" and "extends b c"
  shows "extends a c"
proof -
  from assms have "dirs a \<subseteq> dirs c" and "dom (files a) \<subseteq> dom (files c)"
    unfolding extends_iff by blast+
  moreover from assms have "\<exists>evs. trace c = trace a @ evs"
    unfolding extends_iff by auto
  ultimately show ?thesis
    unfolding extends_iff by blast
qed

lemma extends_emit [simp]: "extends w (emit e w)"
  by (simp add: extends_def emit_def)

lemma extends_emit_right: "extends w w' \<Longrightarrow> extends w (emit e w')"
  by (auto simp: extends_iff emit_def)

lemma extends_emit_left: "extends (emit e w) w' \<Longrightarrow> extends w w'"
  by (auto simp: extends_iff emit_def)

lemma extends_event: "extends w w' \<Longrightarrow> e \<in> set (trace w) \<Longrightarrow> e \<in> set (trace w')"
  by (auto simp: extends_iff)

lemma extends_dir: "extends w w' \<Longrightarrow> p \<in> dirs w \<Longrightarrow> p \<in> dirs w'"
  by (auto simp: extends_iff)

lemma extends_file: "extends w w' \<Longrightarrow> files w p \<noteq> None \<Longrightarrow> files w' p \<noteq> None"
  by (auto simp: extends_iff)

lemma write_chunks_extends: "write_chunks p cs w = (r, w') \<Longrightarrow> extends w w'"
proof (induction cs arbitrary: w)
  case (PCons c cs)
  have "extends w (if c \<noteq> [] then write_chunk p c w else w)"
    by (auto simp: extends_def write_chunk_def)
  moreover have "extends (if c \<noteq> [] then write_chunk p c w else w) w'"
    using PCons by simp
  ultimately show ?case by (rule extends_trans)
qed auto

lemma open_wb_extends: "open_wb p w = (r, w') \<Longrightarrow> extends w w'"
  by (auto simp: open_wb_def Let_def extends_iff emit_def split: if_splits)

lemma makedirs_extends: "makedirs p w = (r, w') \<Longrightarrow> extends w w'"
  by (auto simp: makedirs_def Let_def extends_iff emit_def split: if_splits)

lemma makedirs_creates: "makedirs p w = (Inr u, w') \<Longrightarrow> p \<in> dirs w'"
  by (auto simp: makedirs_def Let_def emit_def split: if_splits)

lemma download_try_extends: "download_try env url dest w = (r, w') \<Longrightarrow> extends w w'"
proof -
  assume a: "download_try env url dest w = (r, w')"
  let ?w1 = "emit (HttpGet url) w"
  show ?thesis
  proof (cases "http_get env url")
    case (Inl m)
    with a show ?thesis by (auto simp: download_try_def Let_def)
  next
    case (Inr resp)
    show ?thesis
    proof (cases "raise_for_status resp")
      case (Some m)
      with a Inr show ?thesis by (auto simp: download_try_def Let_def)
    next
      case None
      obtain r2 w2 where o: "open_wb dest ?w1 = (r2, w2)" by (cases "open_wb dest ?w1")
      from open_wb_extends [OF o] have e2: "extends w w2" by (rule extends_emit_left)
      show ?thesis
      proof (cases r2)
        case (Inl e)
        with a Inr None o e2 show ?thesis by (auto simp: download_try_def Let_def)
      next
        case r2: (Inr u)
        obtain r3 w3 where c: "write_chunks dest (iter_content resp) w2 = (r3, w3)"
          by (cases "write_chunks dest (iter_content resp) w2")
        from e2 write_chunks_extends [OF c] have e3: "extends w w3" by (rule extends_trans)
        from a Inr None o r2 c have "w' = w3 \<or> w' = emit (Print (Downloaded dest)) w3"
          by (auto simp: download_try_def Let_def split: sum.splits)
        with e3 show ?thesis by (auto intro: extends_emit_right)
      qed
    qed
  qed
qed

lemma download_file_extends: "download_file env url name d w = (r, w') \<Longrightarrow> extends w w'"
  unfolding download_file_def Let_def
  by (auto split: sum.splits prod.splits if_splits
      intro: extends_emit_right dest!: download_try_extends)

lemma submit_loop_extends: "submit_loop env fs d futs w = (r, w') \<Longrightarrow> extends w w'"
proof (induction fs arbitrary: futs w)
  case (PCons f fs)
  show ?case
  proof (cases "has_url f")
    case False
    with PCons.prems have "extends (emit (Print (SkippingFileNoURL f)) w) w'"
      using PCons.IH by simp
    then show ?thesis by (rule extends_emit_left)
  next
    case True
    let ?url = "the (file_url f)"
    let ?w1 = "emit (HttpHead ?url) w"
    show ?thesis
    proof (cases "head_content_length env ?url")
      case (Inl m)
      with True PCons.prems show ?thesis by (auto simp: Let_def)
    next
      case (Inr n)
      obtain r2 w2 where dl: "download_file env ?url (display_name f) d
          (emit (Submit ?url (display_name f) d) ?w1) = (r2, w2)"
        by (cases "download_file env ?url (display_name f) d (emit (Submit ?url (display_name f) d) ?w1)")
      from download_file_extends [OF dl] have "extends w w2"
        by (blast intro: extends_emit_left)
      moreover from True Inr dl PCons.prems have "submit_loop env fs d (futs @ [r2]) w2 = (r, w')"
        by (simp add: Let_def)
      then have "extends w2 w'" by (rule PCons.IH)
      ultimately show ?thesis by (rule extends_trans)
    qed
  qed
qed auto

lemma process_files_extends: "process_files env fs d w = (r, w') \<Longrightarrow> extends w w'"
  unfolding process_files_def
  by (auto split: prod.splits sum.splits dest: submit_loop_extends)

lemma walker_extends:
  "download_folder_contents env f d w = (r, w') \<Longrightarrow> extends w w'"
  "folder_try env f d w = (r, w') \<Longrightarrow> extends w w'"
  "subfolder_loop env fs d w = (r, w') \<Longrightarrow> extends w w'"
proof (induction env f d w and env f d w and env fs d w arbitrary: r w' and r w' and r w'
    rule: download_folder_contents_folder_try_subfolder_loop.induct)
  case (1 env folder folder_dir w)
  obtain r1 w1 where t: "folder_try env folder folder_dir w = (r1, w1)"
    by (cases "folder_try env folder folder_dir w")
  from "1.IH" [OF t] have "extends w w1" .
  with "1.prems" t show ?case
    by (auto split: sum.splits if_splits intro: extends_emit_right)
next
  case (2 env fid nm full fls subs folder_dir w)
  obtain r1 w1 where p: "process_files env fls folder_dir (emit (ApiCall (GetFiles fid)) w) = (r1, w1)"
    by (cases "process_files env fls folder_dir (emit (ApiCall (GetFiles fid)) w)")
  from process_files_extends [OF p] have e1: "extends w w1"
    by (rule extends_emit_left)
  show ?case
  proof (cases r1)
    case (Inl e)
    with "2.prems" p e1 show ?thesis by simp
  next
    case (Inr u)
    with "2.prems" p have "subfolder_loop env subs folder_dir (emit (ApiCall (GetSubfolders fid)) w1) = (r, w')"
      by simp
    from "2.IH" [OF p [symmetric] Inr this]
    have "extends w1 w'" by (rule extends_emit_left)
    with e1 show ?thesis by (rule extends_trans)
  qed
next
  case (3 env folder_dir w)
  then show ?case by simp
next
  case (4 env e folder_dir w)
  then show ?case by simp
next
  case (5 env subfolder rest folder_dir w)
  let ?sd = "path_join folder_dir (sanitize_filename (unicode_alnum env) (folder_name subfolder))"
  obtain r1 w1 where m: "makedirs ?sd w = (r1, w1)" by (cases "makedirs ?sd w")
  note e1 = makedirs_extends [OF m]
  show ?case
  proof (cases r1)
    case (Inl e)
    with "5.prems" m e1 show ?thesis by (simp add: Let_def del: download_folder_contents.simps)
  next
    case (Inr u)
    obtain r2 w2 where dl: "download_folder_contents env subfolder ?sd w1 = (r2, w2)"
      by (cases "download_folder_contents env subfolder ?sd w1")
    from "5.IH"(1) [OF refl m [symmetric] Inr dl] have e2: "extends w1 w2" .
    show ?thesis
    proof (cases r2)
      case (Inl e)
      with "5.prems" m Inr dl have "w' = w2" by (simp add: Let_def del: download_folder_contents.simps)
      with e1 e2 show ?thesis by (blast intro: extends_trans)
    next
      case r2: (Inr u')
      with "5.prems" m Inr dl have "subfolder_loop env rest folder_dir w2 = (r, w')"
        by (simp add: Let_def del: download_folder_contents.simps)
      from "5.IH"(2) [OF refl m [symmetric] Inr dl [symmetric] r2 this] have "extends w2 w'" .
      with e1 e2 show ?thesis by (blast intro: extends_trans)
    qed
  qed
qed

subsection \<open>Batches over complete listings\<close>

lemma extends_failed: "extends w w' \<Longrightarrow> download_failed url w \<Longrightarrow> download_failed url w'"
  by (auto simp: extends_iff download_failed_def list_ex_iff)

lemma mirrored_file_extends:
  "extends w w' \<Longrightarrow> mirrored_file env dir g w \<Longrightarrow> mirrored_file env dir g w'"
  unfolding mirrored_file_def
  by (meson extends_event extends_file extends_failed)

lemma download_try_stores:
  assumes "download_try env url dest w = (Inr u, w')"
  shows "files w' dest \<noteq> None"
proof (cases "http_get env url")
  case (Inl m)
  with assms show ?thesis by (simp add: download_try_def Let_def)
next
  case (Inr resp)
  show ?thesis
  proof (cases "raise_for_status resp")
    case (Some m)
    with assms Inr show ?thesis by (simp add: download_try_def Let_def)
  next
    case None
    let ?w1 = "emit (HttpGet url) w"
    obtain r2 w2 where o: "open_wb dest ?w1 = (r2, w2)" by (cases "open_wb dest ?w1")
    show ?thesis
    proof (cases r2)
      case (Inl e)
      with assms Inr None o show ?thesis by (simp add: download_try_def Let_def)
    next
      case r2: (Inr u2)
      from o r2 have f2: "files w2 dest \<noteq> None"
        by (auto simp: open_wb_def Let_def emit_def split: if_splits)
      obtain r3 w3 where c: "write_chunks dest (iter_content resp) w2 = (r3, w3)"
        by (cases "write_chunks dest (iter_content resp) w2")
      from write_chunks_extends [OF c] f2 have f3: "files w3 dest \<noteq> None"
        by (rule extends_file)
      from assms Inr None o r2 c have "w' = emit (Print (Downloaded dest)) w3"
        by (auto simp: download_try_def Let_def split: sum.splits)
      with f3 show ?thesis by (simp add: emit_def)
    qed
  qed
qed

lemma download_file_stores:
  assumes "download_file env url name d w = (r, w')"
  shows "files w' (path_join d (sanitize_filename (unicode_alnum env) name)) \<noteq> None \<or>
         download_failed url w'"
proof (cases "startswith url (py ''http'')")
  case False
  with assms show ?thesis
    by (auto simp: download_file_def emit_def download_failed_def)
next
  case True
  let ?dest = "path_join d (sanitize_filename (unicode_alnum env) name)"
  obtain r1 w1 where t: "download_try env url ?dest w = (r1, w1)"
    by (cases "download_try env url ?dest w")
  show ?thesis
  proof (cases r1)
    case (Inl e)
    with assms True t show ?thesis
      by (auto simp: download_file_def Let_def emit_def download_failed_def)
  next
    case (Inr u)
    with download_try_stores t have "files w1 ?dest \<noteq> None" by blast
    with assms True t Inr show ?thesis
      by (auto simp: download_file_def Let_def)
  qed
qed

lemma submit_loop_mirrors:
  "no_raise fls \<Longrightarrow> submit_loop env fls d futs w = (Inr rs, w') \<Longrightarrow>
   g \<in> set (elems fls) \<Longrightarrow> has_url g \<Longrightarrow> mirrored_file env d g w'"
proof (induction fls arbitrary: futs w)
  case (PCons f fs)
  show ?case
  proof (cases "has_url f")
    case False
    with PCons.prems have "g \<in> set (elems fs)" by auto
    with PCons.prems False PCons.IH show ?thesis by auto
  next
    case True
    let ?url = "the (file_url f)"
    let ?w1 = "emit (Submit ?url (display_name f) d) (emit (HttpHead ?url) w)"
    from True PCons.prems(2) obtain n where n: "head_content_length env ?url = Inr n"
      by (cases "head_content_length env ?url") (auto simp: Let_def)
    obtain r2 w2 where dl: "download_file env ?url (display_name f) d ?w1 = (r2, w2)"
      by (cases "download_file env ?url (display_name f) d ?w1")
    from True n dl PCons.prems(2) have rest: "submit_loop env fs d (futs @ [r2]) w2 = (Inr rs, w')"
      by (simp add: Let_def)
    show ?thesis
    proof (cases "g = f")
      case True
      have "Submit ?url (display_name f) d \<in> set (trace ?w1)" by (simp add: emit_def)
      with download_file_extends [OF dl] have "Submit ?url (display_name f) d \<in> set (trace w2)"
        by (rule extends_event)
      with download_file_stores [OF dl] have "mirrored_file env d f w2"
        by (simp add: mirrored_file_def)
      with submit_loop_extends [OF rest] True show ?thesis
        by (blast intro: mirrored_file_extends)
    next
      case False
      with PCons.prems have "g \<in> set (elems fs)" by auto
      with PCons.prems rest PCons.IH show ?thesis by auto
    qed
  qed
qed auto

lemma process_files_mirrors:
  "no_raise fls \<Longrightarrow> process_files env fls d w = (Inr u, w') \<Longrightarrow>
   g \<in> set (elems fls) \<Longrightarrow> has_url g \<Longrightarrow> mirrored_file env d g w'"
  unfolding process_files_def
  by (auto split: prod.splits sum.splits dest: submit_loop_mirrors)

lemma submit_loop_error:
  "no_raise fls \<Longrightarrow> submit_loop env fls d futs w = (Inl e, w') \<Longrightarrow> \<not> is_unauthorized e"
proof (induction fls arbitrary: futs w)
  case (PCons f fs)
  then show ?case
    by (auto simp: Let_def split: if_splits sum.splits prod.splits)
qed auto

lemma submit_loop_futures_ok:
  "\<forall>r \<in> set futs. r = Inr () \<Longrightarrow> submit_loop env fls d futs w = (Inr rs, w') \<Longrightarrow>
   \<forall>r \<in> set rs. r = Inr ()"
proof (induction fls arbitrary: futs w)
  case (PCons f fs)
  show ?case
  proof (cases "has_url f")
    case False
    with PCons show ?thesis by auto
  next
    case True
    let ?url = "the (file_url f)"
    let ?w1 = "emit (Submit ?url (display_name f) d) (emit (HttpHead ?url) w)"
    from True PCons.prems(2) obtain n where n: "head_content_length env ?url = Inr n"
      by (cases "head_content_length env ?url") (auto simp: Let_def)
    obtain r2 w2 where dl: "download_file env ?url (display_name f) d ?w1 = (r2, w2)"
      by (cases "download_file env ?url (display_name f) d ?w1")
    have "r2 = Inr ()" using download_file_returns [of env ?url "display_name f" d ?w1] dl by simp
    with PCons.prems(1) have "\<forall>r \<in> set (futs @ [r2]). r = Inr ()" by simp
    moreover from True n dl PCons.prems(2) have "submit_loop env fs d (futs @ [r2]) w2 = (Inr rs, w')"
      by (simp add: Let_def)
    ultimately show ?thesis by (rule PCons.IH)
  qed
qed auto

lemma process_files_error:
  assumes "no_raise fls" and "process_files env fls d w = (Inl e, w')"
  shows "\<not> is_unauthorized e"
proof (cases "submit_loop env fls d [] w")
  case (Pair r1 w1)
  show ?thesis
  proof (cases r1)
    case (Inl e1)
    with Pair assms(2) have "e1 = e" by (simp add: process_files_def)
    with submit_loop_error [OF assms(1)] Pair Inl show ?thesis by blast
  next
    case (Inr rs)
    have "\<forall>r \<in> set rs. r = Inr ()"
      using submit_loop_futures_ok [of "[]" env fls d w rs w1] Pair Inr by simp
    then have "join_futures rs = Inr ()" by (rule join_futures_ok)
    with Pair Inr assms(2) show ?thesis by (simp add: process_files_def)
  qed
qed

subsection \<open>The folder walker\<close>

lemma download_folder_contents_not_unauthorized:
  "download_folder_contents env f d w = (Inl e, w') \<Longrightarrow> \<not> is_unauthorized e"
  by (auto split: prod.splits sum.splits if_splits)

lemma walker_error:
  "download_folder_contents env f d w = (Inl e, w') \<Longrightarrow> \<not> is_unauthorized e"
  "complete f \<Longrightarrow> folder_try env f d w = (Inl e, w') \<Longrightarrow> \<not> is_unauthorized e"
  "complete_list fs \<Longrightarrow> subfolder_loop env fs d w = (Inl e, w') \<Longrightarrow> \<not> is_unauthorized e"
proof (induction env f d w and env f d w and env fs d w arbitrary: e w' and e w' and e w'
    rule: download_folder_contents_folder_try_subfolder_loop.induct)
  case (1 env folder folder_dir w)
  from "1.prems" show ?case by (rule download_folder_contents_not_unauthorized)
next
  case (2 env fid nm full fls subs folder_dir w)
  obtain r1 w1 where p: "process_files env fls folder_dir (emit (ApiCall (GetFiles fid)) w) = (r1, w1)"
    by (cases "process_files env fls folder_dir (emit (ApiCall (GetFiles fid)) w)")
  from "2.prems"(1) have nr: "no_raise fls" and cl: "complete_list subs" by simp_all
  show ?case
  proof (cases r1)
    case (Inl e1)
    with "2.prems"(2) p have "e1 = e" by simp
    with process_files_error [OF nr] p Inl show ?thesis by blast
  next
    case (Inr u)
    with "2.prems"(2) p
    have "subfolder_loop env subs folder_dir (emit (ApiCall (GetSubfolders fid)) w1) = (Inl e, w')"
      by simp
    from "2.IH" [OF p [symmetric] Inr cl this] show ?thesis .
  qed
next
  case (3 env folder_dir w)
  then show ?case by simp
next
  case (4 env e0 folder_dir w)
  then show ?case by simp
next
  case (5 env subfolder rest folder_dir w)
  let ?sd = "path_join folder_dir (sanitize_filename (unicode_alnum env) (folder_name subfolder))"
  obtain r1 w1 where m: "makedirs ?sd w = (r1, w1)" by (cases "makedirs ?sd w")
  from "5.prems"(1) have cs: "complete subfolder" and cr: "complete_list rest" by simp_all
  show ?case
  proof (cases r1)
    case (Inl e1)
    with "5.prems"(2) m have "e1 = e" by (simp add: Let_def del: download_folder_contents.simps)
    moreover from m Inl have "\<not> is_unauthorized e1"
      by (auto simp: makedirs_def Let_def split: if_splits)
    ultimately show ?thesis by simp
  next
    case (Inr u)
    obtain r2 w2 where dl: "download_folder_contents env subfolder ?sd w1 = (r2, w2)"
      by (cases "download_folder_contents env subfolder ?sd w1")
    show ?thesis
    proof (cases r2)
      case (Inl e2)
      with "5.prems"(2) m Inr dl have "e2 = e"
        by (simp add: Let_def del: download_folder_contents.simps)
      with download_folder_contents_not_unauthorized dl Inl show ?thesis by blast
    next
      case r2: (Inr u')
      with "5.prems"(2) m Inr dl have "subfolder_loop env rest folder_dir w2 = (Inl e, w')"
        by (simp add: Let_def del: download_folder_contents.simps)
      from "5.IH"(2) [OF refl m [symmetric] Inr dl [symmetric] r2 cr this] show ?thesis .
    qed
  qed
qed

lemma local_dir_Cons:
  "local_dir env d (c # chain) =
     local_dir env (path_join d (sanitize_filename (unicode_alnum env) (folder_name c))) chain"
  by (simp add: local_dir_def)

lemma local_dir_Nil [simp]: "local_dir env d [] = d"
  by (simp add: local_dir_def)

lemma walker_mirrors:
  "complete f \<Longrightarrow> download_folder_contents env f d w = (Inr u, w') \<Longrightarrow> on_path f chain \<Longrightarrow>
     (chain \<noteq> [] \<longrightarrow> local_dir env d chain \<in> dirs w') \<and>
     (\<forall>g \<in> set (elems (get_files (last (f # chain)))). has_url g \<longrightarrow>
        mirrored_file env (local_dir env d chain) g w')"
  "complete f \<Longrightarrow> folder_try env f d w = (Inr u, w') \<Longrightarrow> on_path f chain \<Longrightarrow>
     (chain \<noteq> [] \<longrightarrow> local_dir env d chain \<in> dirs w') \<and>
     (\<forall>g \<in> set (elems (get_files (last (f # chain)))). has_url g \<longrightarrow>
        mirrored_file env (local_dir env d chain) g w')"
  "complete_list fs \<Longrightarrow> subfolder_loop env fs d w = (Inr u, w') \<Longrightarrow>
     c \<in> set (subfolders fs) \<Longrightarrow> on_path c chain \<Longrightarrow>
     local_dir env d (c # chain) \<in> dirs w' \<and>
     (\<forall>g \<in> set (elems (get_files (last (c # chain)))). has_url g \<longrightarrow>
        mirrored_file env (local_dir env d (c # chain)) g w')"
proof (induction env f d w and env f d w and env fs d w
    arbitrary: u w' chain and u w' chain and u w' c chain
    rule: download_folder_contents_folder_try_subfolder_loop.induct)
  case (1 env folder folder_dir w)
  obtain r1 w1 where t: "folder_try env folder folder_dir w = (r1, w1)"
    by (cases "folder_try env folder folder_dir w")
  show ?case
  proof (cases r1)
    case (Inl e)
    with walker_error(2) [OF "1.prems"(1)] t have "\<not> is_unauthorized e" by blast
    with "1.prems"(2) t Inl show ?thesis by simp
  next
    case (Inr u1)
    with "1.prems"(2) t have "w' = w1" by simp
    with "1.IH" [OF "1.prems"(1) t [unfolded Inr] "1.prems"(3)] show ?thesis by simp
  qed
next
  case (2 env fid nm full fls subs folder_dir w)
  obtain r1 w1 where p: "process_files env fls folder_dir (emit (ApiCall (GetFiles fid)) w) = (r1, w1)"
    by (cases "process_files env fls folder_dir (emit (ApiCall (GetFiles fid)) w)")
  from "2.prems"(1) have nr: "no_raise fls" and cl: "complete_list subs" by simp_all
  from "2.prems"(2) p obtain u1 where r1: "r1 = Inr u1"
    by (cases r1) auto
  with "2.prems"(2) p
  have s: "subfolder_loop env subs folder_dir (emit (ApiCall (GetSubfolders fid)) w1) = (Inr u, w')"
    by simp
  show ?case
  proof (cases chain)
    case Nil
    have "extends w1 w'"
      using walker_extends(3) [OF s] by (rule extends_emit_left)
    with process_files_mirrors [OF nr p [unfolded r1]] Nil show ?thesis
      by (auto intro: mirrored_file_extends)
  next
    case (Cons c cs)
    with "2.prems"(3) have "c \<in> set (subfolders subs)" and "on_path c cs" by simp_all
    from "2.IH" [OF p [symmetric] r1 cl s this] Cons show ?thesis by simp
  qed
next
  case (3 env folder_dir w)
  then show ?case by simp
next
  case (4 env e0 folder_dir w)
  then show ?case by simp
next
  case (5 env subfolder rest folder_dir w)
  let ?sd = "path_join folder_dir (sanitize_filename (unicode_alnum env) (folder_name subfolder))"
  obtain r1 w1 where m: "makedirs ?sd w = (r1, w1)" by (cases "makedirs ?sd w")
  from "5.prems"(1) have cs: "complete subfolder" and cr: "complete_list rest" by simp_all
  from "5.prems"(2) m obtain u1 where r1: "r1 = Inr u1"
    by (cases r1) (auto simp: Let_def simp del: download_folder_contents.simps)
  obtain r2 w2 where dl: "download_folder_contents env subfolder ?sd w1 = (r2, w2)"
    by (cases "download_folder_contents env subfolder ?sd w1")
  from "5.prems"(2) m r1 dl obtain u2 where r2: "r2 = Inr u2"
    by (cases r2) (auto simp: Let_def simp del: download_folder_contents.simps)
  with "5.prems"(2) m r1 dl have l: "subfolder_loop env rest folder_dir w2 = (Inr u, w')"
    by (simp add: Let_def del: download_folder_contents.simps)
  note e2 = walker_extends(1) [OF dl]
  note e3 = walker_extends(3) [OF l]
  from "5.prems"(3) have "c = subfolder \<or> c \<in> set (subfolders rest)" by auto
  then show ?case
  proof
    assume c: "c = subfolder"
    from "5.IH"(1) [OF refl m [symmetric] r1 cs dl [unfolded r2]] "5.prems"(4) c
    have q: "(chain \<noteq> [] \<longrightarrow> local_dir env ?sd chain \<in> dirs w2) \<and>
       (\<forall>g \<in> set (elems (get_files (last (subfolder # chain)))). has_url g \<longrightarrow>
          mirrored_file env (local_dir env ?sd chain) g w2)"
      by blast
    have "?sd \<in> dirs w1" using m r1 by (auto dest: makedirs_creates)
    with e2 have "?sd \<in> dirs w2" by (rule extends_dir)
    with q have "local_dir env ?sd chain \<in> dirs w2" by (cases chain) auto
    with q e3 c show ?thesis
      by (auto simp: local_dir_Cons intro: extends_dir mirrored_file_extends)
  next
    assume "c \<in> set (subfolders rest)"
    from "5.IH"(2) [OF refl m [symmetric] r1 dl [symmetric] r2 cr l this "5.prems"(4)]
    show ?thesis .
  qed
qed

lemma on_path_take: "on_path r chain \<Longrightarrow> on_path r (take k chain)"
proof (induction chain arbitrary: r k)
  case (Cons c cs)
  then show ?case by (cases k) auto
qed simp

text \<open>
  C7, as amended: when no listing of the tree raises and the walk from \<open>root\<close> into the
  local directory \<open>d\<close> returns without an exception, then for every chain of nested
  subfolders below \<open>root\<close> (three of them for files at depth 3) the local directory of
  each level exists, its path being \<open>d\<close> joined with the sanitised names of the folders
  down to that level; and every file with a URL listed in the last folder has its download
  submitted with that directory and, unless the trace says that its download failed,
  exists locally in that directory under its sanitised display name.
\<close>

theorem folder_tree_mirrored:
  assumes "complete root"
    and "download_folder_contents env root d w = (Inr (), w')"
    and "on_path root chain"
    and "chain \<noteq> []"
  shows "(\<forall>k \<in> {1..length chain}. local_dir env d (take k chain) \<in> dirs w') \<and>
         (\<forall>g \<in> set (elems (get_files (last chain))). has_url g \<longrightarrow>
            Submit (the (file_url g)) (display_name g) (local_dir env d chain) \<in> set (trace w') \<and>
            (\<not> download_failed (the (file_url g)) w' \<longrightarrow>
               files w' (path_join (local_dir env d chain)
                           (sanitize_filename (unicode_alnum env) (display_name g))) \<noteq> None))"
proof -
  have a: "\<forall>k \<in> {1..length chain}. local_dir env d (take k chain) \<in> dirs w'"
  proof
    fix k assume k: "k \<in> {1..length chain}"
    then have ne: "take k chain \<noteq> []" using assms(4) by auto
    from walker_mirrors(1) [OF assms(1,2) on_path_take [OF assms(3)], of k] ne
    show "local_dir env d (take k chain) \<in> dirs w'" by blast
  qed
  have "\<forall>g \<in> set (elems (get_files (last chain))). has_url g \<longrightarrow>
          mirrored_file env (local_dir env d chain) g w'"
    using walker_mirrors(1) [OF assms(1,2,3)] assms(4) by simp
  then have b: "\<forall>g \<in> set (elems (get_files (last chain))). has_url g \<longrightarrow>
            Submit (the (file_url g)) (display_name g) (local_dir env d chain) \<in> set (trace w') \<and>
            (\<not> download_failed (the (file_url g)) w' \<longrightarrow>
               files w' (path_join (local_dir env d chain)
                           (sanitize_filename (unicode_alnum env) (display_name g))) \<noteq> None)"
    unfolding mirrored_file_def by blast
  from a b show ?thesis by blast
qed

lemma makedirs_empty:
  "files w = Map.empty \<Longrightarrow>
   makedirs p w = (Inr (), (emit (MakeDirs p) w)\<lparr>dirs := dirs w \<union> set (p # ancestors p)\<rparr>)"
  by (simp add: makedirs_def Let_def list_ex_iff emit_def)

lemma ex_dirs:
  "local_dir ex_env (py ''d'') [ex_a] = py ''d/x_1''"
  "local_dir ex_env (py ''d'') [ex_a, ex_b] = py ''d/x_1/B''"
  "local_dir ex_env (py ''d'') [ex_a, ex_b, ex_c] = py ''d/x_1/B/C''"
  by (simp_all add: local_dir_def ex_a_def ex_b_def ex_c_def ex_env_def path_join_def
      startswith_def sanitize_filename_def allowed_def word_char_def ascii_alnum_def py_def)

lemma ex_on_path:
  "on_path ex_tree [ex_a, ex_b, ex_c]" "on_path ex_tree_bad [ex_a, ex_b, ex_c]"
  by (simp_all add: ex_tree_def ex_tree_bad_def ex_a_def ex_b_def)

lemma ex_complete: "complete ex_tree"
  by (simp add: ex_tree_def ex_a_def ex_b_def ex_c_def)

lemma ex_walk: "fst (download_folder_contents ex_env ex_tree (py ''d'') ex_world) = Inr ()"
  by code_simp

lemma ex_walk_clean:
  "\<not> download_failed (py ''http://ok'')
       (snd (download_folder_contents ex_env ex_tree (py ''d'') ex_world))"
  by code_simp

lemma ex_walk_down:
  "fst (download_folder_contents ex_env_down ex_tree (py ''d'') ex_world) = Inr ()"
  "py ''d/x_1/B/C'' \<in> dirs (snd (download_folder_contents ex_env_down ex_tree (py ''d'') ex_world))"
  "files (snd (download_folder_contents ex_env_down ex_tree (py ''d'') ex_world))
     (py ''d/x_1/B/C/a b_.txt'') = None"
  "download_failed (py ''http://ok'')
     (snd (download_folder_contents ex_env_down ex_tree (py ''d'') ex_world))"
  by code_simp+

lemma ex_file_path:
  "path_join (py ''d/x_1/B/C'') (sanitize_filename (unicode_alnum ex_env) (display_name ex_file_ok))
     = py ''d/x_1/B/C/a b_.txt''"
  by (simp add: ex_env_def ex_file_ok_def path_join_def startswith_def sanitize_filename_def
      allowed_def word_char_def ascii_alnum_def py_def)

theorem folder_tree_mirrored_witness:
  "py ''d/x_1'' \<in> dirs (snd (download_folder_contents ex_env ex_tree (py ''d'') ex_world)) \<and>
   py ''d/x_1/B'' \<in> dirs (snd (download_folder_contents ex_env ex_tree (py ''d'') ex_world)) \<and>
   py ''d/x_1/B/C'' \<in> dirs (snd (download_folder_contents ex_env ex_tree (py ''d'') ex_world)) \<and>
   Submit (py ''http://ok'') (py ''a b?.txt'') (py ''d/x_1/B/C'')
     \<in> set (trace (snd (download_folder_contents ex_env ex_tree (py ''d'') ex_world))) \<and>
   files (snd (download_folder_contents ex_env ex_tree (py ''d'') ex_world))
     (py ''d/x_1/B/C/a b_.txt'') \<noteq> None"
proof -
  let ?w' = "snd (download_folder_contents ex_env ex_tree (py ''d'') ex_world)"
  have r: "download_folder_contents ex_env ex_tree (py ''d'') ex_world = (Inr (), ?w')"
    using ex_walk by (metis prod.collapse)
  have ne: "[ex_a, ex_b, ex_c] \<noteq> []" by simp
  note t = folder_tree_mirrored [OF ex_complete r ex_on_path(1) ne]
  from t have d: "\<forall>k \<in> {1..length [ex_a, ex_b, ex_c]}.
      local_dir ex_env (py ''d'') (take k [ex_a, ex_b, ex_c]) \<in> dirs ?w'" by blast
  have "(1::nat) \<in> {1..length [ex_a, ex_b, ex_c]}" "(2::nat) \<in> {1..length [ex_a, ex_b, ex_c]}"
    "(3::nat) \<in> {1..length [ex_a, ex_b, ex_c]}" by simp_all
  with d have "local_dir ex_env (py ''d'') (take 1 [ex_a, ex_b, ex_c]) \<in> dirs ?w'"
    "local_dir ex_env (py ''d'') (take 2 [ex_a, ex_b, ex_c]) \<in> dirs ?w'"
    "local_dir ex_env (py ''d'') (take 3 [ex_a, ex_b, ex_c]) \<in> dirs ?w'" by blast+
  moreover have "take 1 [ex_a, ex_b, ex_c] = [ex_a]" "take 2 [ex_a, ex_b, ex_c] = [ex_a, ex_b]"
    "take 3 [ex_a, ex_b, ex_c] = [ex_a, ex_b, ex_c]"
    by (simp_all add: numeral_2_eq_2 numeral_3_eq_3)
  ultimately have dirs: "py ''d/x_1'' \<in> dirs ?w'" "py ''d/x_1/B'' \<in> dirs ?w'"
    "py ''d/x_1/B/C'' \<in> dirs ?w'"
    by (simp_all add: ex_dirs)
  have g: "ex_file_ok \<in> set (elems (get_files (last [ex_a, ex_b, ex_c])))"
    by (simp add: ex_c_def)
  have u: "the (file_url ex_file_ok) = py ''http://ok''" "display_name ex_file_ok = py ''a b?.txt''"
    by (simp_all add: ex_file_ok_def)
  from t g ex_has_url(1)
  have m: "Submit (the (file_url ex_file_ok)) (display_name ex_file_ok)
        (local_dir ex_env (py ''d'') [ex_a, ex_b, ex_c]) \<in> set (trace ?w') \<and>
      (\<not> download_failed (the (file_url ex_file_ok)) ?w' \<longrightarrow>
         files ?w' (path_join (local_dir ex_env (py ''d'') [ex_a, ex_b, ex_c])
           (sanitize_filename (unicode_alnum ex_env) (display_name ex_file_ok))) \<noteq> None)"
    by blast
  from m have s: "Submit (py ''http://ok'') (py ''a b?.txt'') (py ''d/x_1/B/C'') \<in> set (trace ?w')"
    by (simp add: ex_dirs u)
  from m ex_walk_clean have f: "files ?w' (py ''d/x_1/B/C/a b_.txt'') \<noteq> None"
    unfolding ex_dirs ex_file_path u(1) by blast
  from dirs s f show ?thesis by blast
qed

lemma ex_bad_walk:
  "download_folder_contents ex_env ex_tree_bad (py ''d'') ex_world =
     (Inl (OtherException (py ''timeout'')),
      emit (HttpHead (py ''http://bad'')) (emit (ApiCall (GetFiles 10)) ex_world))"
  by (simp add: ex_tree_bad_def process_files_def Let_def ex_has_url ex_file_bad_def ex_env_def
      has_url_def py_def)

text \<open>
  C7 as stated fails in two ways. When a walk is cut short: a file of the root has a size
  probe that raises, the walk raises with it, and none of the three nested folders,
  which hold a file at depth 3, is mirrored. And when a download fails: on a network
  that refuses every GET the walk returns normally and the three directories exist, but
  the file at depth 3 has no local copy; the failure is in the trace.
\<close>

theorem folder_tree_mirrored_counterexample:
  "on_path ex_tree_bad [ex_a, ex_b, ex_c] \<and>
   ex_file_ok \<in> set (elems (get_files ex_c)) \<and>
   fst (download_folder_contents ex_env ex_tree_bad (py ''d'') ex_world) =
     Inl (OtherException (py ''timeout'')) \<and>
   local_dir ex_env (py ''d'') [ex_a, ex_b, ex_c] = py ''d/x_1/B/C'' \<and>
   py ''d/x_1/B/C'' \<notin> dirs (snd (download_folder_contents ex_env ex_tree_bad (py ''d'') ex_world)) \<and>
   py ''d/x_1'' \<notin> dirs (snd (download_folder_contents ex_env ex_tree_bad (py ''d'') ex_world)) \<and>
   dirs (snd (download_folder_contents ex_env ex_tree_bad (py ''d'') ex_world)) = dirs ex_world \<and>
   on_path ex_tree [ex_a, ex_b, ex_c] \<and>
   fst (download_folder_contents ex_env_down ex_tree (py ''d'') ex_world) = Inr () \<and>
   py ''d/x_1/B/C'' \<in> dirs (snd (download_folder_contents ex_env_down ex_tree (py ''d'') ex_world)) \<and>
   files (snd (download_folder_contents ex_env_down ex_tree (py ''d'') ex_world))
     (py ''d/x_1/B/C/a b_.txt'') = None \<and>
   download_failed (py ''http://ok'')
     (snd (download_folder_contents ex_env_down ex_tree (py ''d'') ex_world))"
proof -
  let ?w' = "snd (download_folder_contents ex_env ex_tree_bad (py ''d'') ex_world)"
  have g: "ex_file_ok \<in> set (elems (get_files ex_c))"
    by (simp add: ex_c_def)
  have r: "fst (download_folder_contents ex_env ex_tree_bad (py ''d'') ex_world) =
      Inl (OtherException (py ''timeout''))"
    unfolding ex_bad_walk by simp
  have d: "dirs ?w' = dirs ex_world"
    unfolding ex_bad_walk by (simp add: emit_def)
  have n: "py ''d/x_1/B/C'' \<notin> dirs ex_world" "py ''d/x_1'' \<notin> dirs ex_world"
    by (simp_all add: ex_world_def py_def)
  from ex_on_path g r ex_dirs(3) n d ex_walk_down show ?thesis
    by simp
qed

text \<open>
  C5, as amended: when the processing of a subfolder raises the exception
  \<^verbatim>\<open>Unauthorized\<close> of the API client (the one class that the handler of line 89
  names), the call for that subfolder returns normally after logging it, and the loop
  of the parent goes on with all the remaining subfolders. No call of the walker ever
  lets an \<^verbatim>\<open>Unauthorized\<close> out.
\<close>

theorem unauthorized_subfolder_skipped:
  assumes "subfolder_dir = path_join d (sanitize_filename (unicode_alnum env) (folder_name s))"
    and "makedirs subfolder_dir w = (Inr (), w1)"
    and "folder_try env s subfolder_dir w1 = (Inl e, w2)"
    and "is_unauthorized e"
  shows "download_folder_contents env s subfolder_dir w1 =
           (Inr (), emit (Print (UnauthorizedFolder (folder_id s) e)) w2) \<and>
         subfolder_loop env (FCons s rest) d w =
           subfolder_loop env rest d (emit (Print (UnauthorizedFolder (folder_id s) e)) w2) \<and>
         (\<forall>e'. fst (download_folder_contents env f' d' w') = Inl e' \<longrightarrow> \<not> is_unauthorized e')"
proof -
  have a: "download_folder_contents env s subfolder_dir w1 =
           (Inr (), emit (Print (UnauthorizedFolder (folder_id s) e)) w2)"
    using assms(3,4) by simp
  have b: "subfolder_loop env (FCons s rest) d w =
           subfolder_loop env rest d (emit (Print (UnauthorizedFolder (folder_id s) e)) w2)"
    using assms(1,2) a by (simp add: Let_def del: download_folder_contents.simps)
  have c: "\<forall>e'. fst (download_folder_contents env f' d' w') = Inl e' \<longrightarrow> \<not> is_unauthorized e'"
    using download_folder_contents_not_unauthorized [of env f' d' w']
    by (metis prod.collapse)
  from a b c show ?thesis by blast
qed

lemma folder_try_visits:
  assumes "folder_try env f d w = (r, w')"
  shows "ApiCall (GetFiles (folder_id f)) \<in> set (trace w')"
proof (cases f)
  case (Folder fid nm full fls subs)
  obtain r1 w1 where p: "process_files env fls d (emit (ApiCall (GetFiles fid)) w) = (r1, w1)"
    by (cases "process_files env fls d (emit (ApiCall (GetFiles fid)) w)")
  have "ApiCall (GetFiles fid) \<in> set (trace (emit (ApiCall (GetFiles fid)) w))"
    by (simp add: emit_def)
  with process_files_extends [OF p] have e1: "ApiCall (GetFiles fid) \<in> set (trace w1)"
    by (rule extends_event)
  show ?thesis
  proof (cases r1)
    case (Inl e)
    with assms Folder p e1 show ?thesis by auto
  next
    case (Inr u)
    with assms Folder p
    have "subfolder_loop env subs d (emit (ApiCall (GetSubfolders fid)) w1) = (r, w')" by simp
    from walker_extends(3) [OF this] have "extends w1 w'" by (rule extends_emit_left)
    with e1 Folder show ?thesis by (auto intro: extends_event)
  qed
qed

lemma download_folder_contents_visits:
  assumes "download_folder_contents env f d w = (r, w')"
  shows "ApiCall (GetFiles (folder_id f)) \<in> set (trace w')"
proof -
  obtain r1 w1 where t: "folder_try env f d w = (r1, w1)" by (cases "folder_try env f d w")
  from folder_try_visits [OF t] have "ApiCall (GetFiles (folder_id f)) \<in> set (trace w1)" .
  with assms t show ?thesis
    by (cases r1) (auto simp: emit_def split: if_splits)
qed

lemma subfolder_loop_visits_head:
  assumes "makedirs (path_join d (sanitize_filename (unicode_alnum env) (folder_name s))) w
             = (Inr u, w1)"
  shows "ApiCall (GetFiles (folder_id s))
           \<in> set (trace (snd (subfolder_loop env (FCons s rest) d w)))"
proof -
  let ?sd = "path_join d (sanitize_filename (unicode_alnum env) (folder_name s))"
  obtain r2 w2 where dl: "download_folder_contents env s ?sd w1 = (r2, w2)"
    by (cases "download_folder_contents env s ?sd w1")
  note v = download_folder_contents_visits [OF dl]
  show ?thesis
  proof (cases r2)
    case (Inl e)
    with assms dl v show ?thesis by (simp add: Let_def del: download_folder_contents.simps)
  next
    case (Inr u')
    obtain r3 w3 where l: "subfolder_loop env rest d w2 = (r3, w3)"
      by (cases "subfolder_loop env rest d w2")
    from walker_extends(3) [OF l] v have "ApiCall (GetFiles (folder_id s)) \<in> set (trace w3)"
      by (rule extends_event)
    with assms dl Inr l show ?thesis by (simp add: Let_def del: download_folder_contents.simps)
  qed
qed

lemma ex_names:
  "path_join (py ''d'') (sanitize_filename (unicode_alnum ex_env) (folder_name ex_locked)) = py ''d/L''"
  "path_join (py ''d'') (sanitize_filename (unicode_alnum ex_env) (folder_name ex_open)) = py ''d/O''"
  by (simp_all add: ex_env_def ex_locked_def ex_open_def path_join_def startswith_def
      sanitize_filename_def allowed_def word_char_def ascii_alnum_def py_def)

theorem unauthorized_subfolder_skipped_witness:
  "subfolder_loop ex_env (FCons ex_locked (FCons ex_open FNil)) (py ''d'') ex_world =
     subfolder_loop ex_env (FCons ex_open FNil) (py ''d'')
       (emit (Print (UnauthorizedFolder 2 (Unauthorized (py ''no''))))
          (emit (ApiCall (GetFiles 2)) (snd (makedirs (py ''d/L'') ex_world)))) \<and>
   ApiCall (GetFiles 3) \<in> set (trace (snd
     (subfolder_loop ex_env (FCons ex_locked (FCons ex_open FNil)) (py ''d'') ex_world)))"
proof -
  let ?w1 = "snd (makedirs (py ''d/L'') ex_world)"
  let ?w3 = "emit (Print (UnauthorizedFolder 2 (Unauthorized (py ''no''))))
          (emit (ApiCall (GetFiles 2)) ?w1)"
  have f: "files ex_world = Map.empty" by (simp add: ex_world_def)
  have m: "makedirs (py ''d/L'') ex_world = (Inr (), ?w1)"
    by (simp add: makedirs_empty [OF f])
  have t: "folder_try ex_env ex_locked (py ''d/L'') ?w1 =
      (Inl (Unauthorized (py ''no'')), emit (ApiCall (GetFiles 2)) ?w1)"
    by (simp add: ex_locked_def process_files_def)
  have i: "is_unauthorized (Unauthorized (py ''no''))" by simp
  have id: "folder_id ex_locked = 2" "folder_id ex_open = 3"
    by (simp_all add: ex_locked_def ex_open_def)
  from unauthorized_subfolder_skipped [OF ex_names(1) [symmetric] m t i, of "FCons ex_open FNil"]
  have u: "subfolder_loop ex_env (FCons ex_locked (FCons ex_open FNil)) (py ''d'') ex_world =
     subfolder_loop ex_env (FCons ex_open FNil) (py ''d'') ?w3"
    unfolding id by blast
  have f3: "files ?w3 = Map.empty"
    by (simp add: makedirs_empty [OF f] emit_def f)
  have "makedirs (path_join (py ''d'') (sanitize_filename (unicode_alnum ex_env) (folder_name ex_open))) ?w3
      = (Inr (), snd (makedirs (py ''d/O'') ?w3))"
    unfolding ex_names by (simp add: makedirs_empty [OF f3])
  from subfolder_loop_visits_head [OF this, of FNil]
  have "ApiCall (GetFiles 3) \<in> set (trace (snd (subfolder_loop ex_env (FCons ex_open FNil) (py ''d'') ?w3)))"
    unfolding id .
  with u show ?thesis by simp
qed

text \<open>
  C5 as stated fails for an authorization failure of another class: the file listing of
  this subfolder raises \<^verbatim>\<open>Forbidden\<close> (access denied), which line 89 does not catch; the
  loop of the parent ends with that exception, nothing is logged, and the sibling that
  follows is never processed.
\<close>

theorem unauthorized_subfolder_skipped_counterexample:
  "fst (subfolder_loop ex_env (FCons ex_forbidden (FCons ex_open FNil)) (py ''d'') ex_world) =
     Inl (Forbidden (py ''denied'')) \<and>
   trace (snd (subfolder_loop ex_env (FCons ex_forbidden (FCons ex_open FNil)) (py ''d'') ex_world)) =
     [MakeDirs (py ''d/F''), ApiCall (GetFiles 4)] \<and>
   ApiCall (GetFiles (folder_id ex_open)) \<notin> set (trace (snd
     (subfolder_loop ex_env (FCons ex_forbidden (FCons ex_open FNil)) (py ''d'') ex_world)))"
proof -
  have f: "files ex_world = Map.empty" "trace ex_world = []"
    by (simp_all add: ex_world_def)
  have p: "path_join (py ''d'') (sanitize_filename (unicode_alnum ex_env) (folder_name ex_forbidden))
      = py ''d/F''"
    by (simp add: ex_env_def ex_forbidden_def path_join_def startswith_def
        sanitize_filename_def allowed_def word_char_def ascii_alnum_def py_def)
  have t: "folder_try ex_env ex_forbidden dir w =
      (Inl (Forbidden (py ''denied'')), emit (ApiCall (GetFiles 4)) w)" for dir w
    by (simp add: ex_forbidden_def process_files_def)
  have l: "subfolder_loop ex_env (FCons ex_forbidden (FCons ex_open FNil)) (py ''d'') ex_world =
      (Inl (Forbidden (py ''denied'')),
       emit (ApiCall (GetFiles 4))
         ((emit (MakeDirs (py ''d/F'')) ex_world)
            \<lparr>dirs := dirs ex_world \<union> set (py ''d/F'' # ancestors (py ''d/F''))\<rparr>))"
    by (simp add: p Let_def makedirs_empty [OF f(1)] t)
  have i: "folder_id ex_open = 3" by (simp add: ex_open_def)
  show ?thesis
    unfolding l i by (simp add: emit_def f(2))
qed

subsection \<open>The root of the folder walk\<close>

lemma find_root_name: "find_root fs = Inr r \<Longrightarrow> full_name r = py ''course files''"
  by (induction fs rule: find_root.induct) (auto split: if_splits)

lemma find_root_fprepend:
  "\<forall>f \<in> set before. full_name f \<noteq> py ''course files'' \<Longrightarrow>
   full_name r = py ''course files'' \<Longrightarrow>
   find_root (fprepend before (FCons r rest)) = Inr r"
  by (induction before) auto

lemma course_files_pass_returns: "fst (course_files_pass env c cid dir w) = Inr ()"
  by (simp add: course_files_pass_def Let_def split: sum.splits prod.splits)

lemma modules_pass_returns: "fst (modules_pass env c cid dir w) = Inr ()"
  by (simp add: modules_pass_def split: sum.splits prod.splits)

lemma course_files_pass_root:
  assumes "find_root (course_folders c) = Inr r"
  shows "course_files_pass env c cid dir w =
     (case download_folder_contents env r dir (emit (ApiCall (GetFolders cid)) w) of
        (Inl e, w') \<Rightarrow> (Inr (), emit (Print (ErrorCourseFiles cid e)) w')
      | (Inr u, w') \<Rightarrow> (Inr (), w'))"
proof -
  let ?w1 = "emit (ApiCall (GetFolders cid)) w"
  obtain r1 w1 where dl: "download_folder_contents env r dir ?w1 = (r1, w1)"
    by (cases "download_folder_contents env r dir ?w1")
  show ?thesis
  proof (cases r1)
    case (Inl e)
    with download_folder_contents_not_unauthorized dl have "\<not> is_unauthorized e" by blast
    with assms dl Inl show ?thesis
      by (simp add: course_files_pass_def Let_def del: download_folder_contents.simps)
  next
    case (Inr u)
    with assms dl show ?thesis
      by (simp add: course_files_pass_def Let_def del: download_folder_contents.simps)
  qed
qed

text \<open>
  C8: for a course that resolves, whose directory did not exist and has been created,
  the first pass walks from the first folder of the listing whose full name is exactly
  \<^verbatim>\<open>course files\<close> and from no other; whatever \<open>find_root\<close> returns has that name. The
  course processor is this pass followed by the pass over the modules.
\<close>

theorem course_files_root_selected:
  assumes "get_course env course_id = Inr c"
    and "course_dir = path_join (py ''canvas_downloads'')
                        (sanitize_filename (unicode_alnum env) (course_name c))"
    and "\<not> path_exists w course_dir"
    and "makedirs course_dir
           (emit (Print (ProcessingCourse (course_name c))) (emit (ApiCall (GetCourse course_id)) w))
         = (Inr (), w2)"
    and "course_folders c = fprepend before (FCons r rest)"
    and "\<forall>f \<in> set before. full_name f \<noteq> py ''course files''"
    and "full_name r = py ''course files''"
  shows "find_root (course_folders c) = Inr r \<and>
         course_files_pass env c course_id course_dir w2 =
           (case download_folder_contents env r course_dir (emit (ApiCall (GetFolders course_id)) w2) of
              (Inl e, w') \<Rightarrow> (Inr (), emit (Print (ErrorCourseFiles course_id e)) w')
            | (Inr u, w') \<Rightarrow> (Inr (), w')) \<and>
         download_course_files env course_id w =
           (Inr (), snd (modules_pass env c course_id course_dir
                          (snd (course_files_pass env c course_id course_dir w2)))) \<and>
         (\<forall>r'. find_root fs' = Inr r' \<longrightarrow> full_name r' = py ''course files'')"
proof -
  have a: "find_root (course_folders c) = Inr r"
    unfolding assms(5) by (rule find_root_fprepend [OF assms(6,7)])
  note b = course_files_pass_root [OF a, of env course_id course_dir w2]
  obtain w3 where p: "course_files_pass env c course_id course_dir w2 = (Inr (), w3)"
    using course_files_pass_returns [of env c course_id course_dir w2]
    by (metis prod.collapse)
  obtain w4 where q: "modules_pass env c course_id course_dir w3 = (Inr (), w4)"
    using modules_pass_returns [of env c course_id course_dir w3]
    by (metis prod.collapse)
  have ne: "\<not> path_exists (emit (Print (ProcessingCourse (course_name c)))
                (emit (ApiCall (GetCourse course_id)) w)) course_dir"
    using assms(3) by (simp add: path_exists_def emit_def)
  have "course_try env course_id w = (Inr (), w4)"
    using assms(1,4) ne p q unfolding course_try_def Let_def assms(2)
    by simp
  then have d: "download_course_files env course_id w =
           (Inr (), snd (modules_pass env c course_id course_dir
                          (snd (course_files_pass env c course_id course_dir w2))))"
    using p q by (simp add: download_course_files_def)
  have e: "\<forall>r'. find_root fs' = Inr r' \<longrightarrow> full_name r' = py ''course files''"
    by (blast intro: find_root_name)
  from a b d e show ?thesis by blast
qed

lemma ex_course_files_dir:
  "path_join (py ''canvas_downloads'')
     (sanitize_filename (unicode_alnum ex_env) (course_name ex_course_files))
     = py ''canvas_downloads/M''"
  by (simp add: ex_env_def ex_course_files_def path_join_def startswith_def sanitize_filename_def
      allowed_def word_char_def ascii_alnum_def py_def)

theorem course_files_root_selected_witness:
  "find_root (course_folders ex_course_files) = Inr ex_tree \<and>
   download_course_files ex_env 2 ex_world =
     (Inr (), snd (modules_pass ex_env ex_course_files 2 (py ''canvas_downloads/M'')
        (snd (course_files_pass ex_env ex_course_files 2 (py ''canvas_downloads/M'')
           (snd (makedirs (py ''canvas_downloads/M'')
              (emit (Print (ProcessingCourse (course_name ex_course_files)))
                 (emit (ApiCall (GetCourse 2)) ex_world))))))))"
proof -
  let ?w1 = "emit (Print (ProcessingCourse (course_name ex_course_files)))
                 (emit (ApiCall (GetCourse 2)) ex_world)"
  have c: "get_course ex_env 2 = Inr ex_course_files"
    by (simp add: ex_env_def)
  have n: "\<not> path_exists ex_world (py ''canvas_downloads/M'')"
    by (simp add: path_exists_def ex_world_def py_def)
  have f: "files ?w1 = Map.empty"
    by (simp add: emit_def ex_world_def)
  have m: "makedirs (py ''canvas_downloads/M'') ?w1 =
      (Inr (), snd (makedirs (py ''canvas_downloads/M'') ?w1))"
    by (simp add: makedirs_empty [OF f])
  have l: "course_folders ex_course_files = fprepend [ex_a] (FCons ex_tree (FCons ex_locked FNil))"
    by (simp add: ex_course_files_def)
  have b: "\<forall>f \<in> set [ex_a]. full_name f \<noteq> py ''course files''"
    by (simp add: ex_a_def py_def)
  have r: "full_name ex_tree = py ''course files''"
    by (simp add: ex_tree_def)
  from course_files_root_selected [OF c ex_course_files_dir [symmetric] n m l b r]
  show ?thesis by blast
qed

end
